theory Spec2Isabelle
  imports Main "HOL-Library.Sublist" "HOL-Library.Multiset"
begin

section \<open>JavaScript string primitives used by the scraper\<close>

text \<open>
  A JavaScript string is modelled as an Isabelle \<open>string\<close>: each \<open>char\<close> stands for one
  code unit below 256. The character classes are the ones the regular expressions of
  \<open>scraper.ts\<close> use, restricted to that range.
\<close>

definition isSpace :: "char \<Rightarrow> bool" where
  \<comment> \<open>\<open>\s\<close>, which is also what \<open>String.prototype.trim\<close> removes: TAB, LF, VT, FF, CR, SPACE, NBSP\<close>
  "isSpace c = (c \<in> set [CHR 0x09, CHR 0x0A, CHR 0x0B, CHR 0x0C, CHR 0x0D, CHR 0x20, CHR 0xA0])"

definition isLineTerminator :: "char \<Rightarrow> bool" where
  \<comment> \<open>the characters \<open>.\<close> does not match\<close>
  "isLineTerminator c = (c = CHR 0x0A \<or> c = CHR 0x0D)"

definition isAlnum :: "char \<Rightarrow> bool" where
  \<comment> \<open>\<open>[a-zA-Z0-9]\<close>\<close>
  "isAlnum c = (c \<in> set ''abcdefghijklmnopqrstuvwxyzABCDEFGHIJKLMNOPQRSTUVWXYZ0123456789'')"

definition toLower :: "char \<Rightarrow> char" where
  \<comment> \<open>case folding of the \<open>i\<close> flag against an ASCII pattern\<close>
  "toLower c =
     (case map_of (zip ''ABCDEFGHIJKLMNOPQRSTUVWXYZ'' ''abcdefghijklmnopqrstuvwxyz'') c of
        None \<Rightarrow> c
      | Some l \<Rightarrow> l)"

text \<open>\<open>s.replace(/[class]+/g, r)\<close>: every maximal run of characters of the class becomes \<open>r\<close>.\<close>

function replaceRuns :: "(char \<Rightarrow> bool) \<Rightarrow> string \<Rightarrow> string \<Rightarrow> string" where
  "replaceRuns p r [] = []"
| "replaceRuns p r (c # cs) =
     (if p c then r @ replaceRuns p r (dropWhile p cs) else c # replaceRuns p r cs)"
  by pat_completeness auto
termination
  by (relation "measure (\<lambda>(p, r, s). length s)")
     (auto simp: length_dropWhile_le less_Suc_eq_le)

definition trim :: "string \<Rightarrow> string" where
  "trim s = rev (dropWhile isSpace (rev (dropWhile isSpace s)))"

text \<open>
  \<open>s.split(re)\<close> for a regular expression without capture groups that never matches the
  empty string. The matcher \<open>m\<close> tells whether \<open>re\<close> matches at the start of its argument
  and, if so, what is left after the match. \<open>acc\<close> holds the current piece, reversed.
\<close>

function splitRe :: "(string \<Rightarrow> string option) \<Rightarrow> string \<Rightarrow> string \<Rightarrow> string list" where
  "splitRe m acc [] = [rev acc]"
| "splitRe m acc (c # cs) =
     (case m (c # cs) of
        None \<Rightarrow> splitRe m (c # acc) cs
      | Some rest \<Rightarrow>
          if length rest \<le> length cs then rev acc # splitRe m [] rest
          else splitRe m (c # acc) cs)"
  by pat_completeness auto
termination
  by (relation "measure (\<lambda>(m, acc, s). length s)") auto

text \<open>\<open>[...new Set(xs)]\<close>: the distinct elements in order of first occurrence.\<close>

fun new_Set :: "'a list \<Rightarrow> 'a list" where
  "new_Set [] = []"
| "new_Set (x # xs) = x # new_Set (filter (\<lambda>y. y \<noteq> x) xs)"


section \<open>The data model (\<open>types.ts\<close>)\<close>

text \<open>
  Field names are those of the interfaces; where two interfaces share a field name the
  later one carries a prefix. Optional fields are \<open>option\<close>s.
\<close>

record ContentSection =
  heading :: string
  paragraphs :: "string list"
  bullets :: "string list"

record LabelledLink =
  label :: string
  link_url :: string

type_synonym RelatedCondition = LabelledLink
type_synonym UsefulResource = LabelledLink

record QuestionAnswer =
  question :: string
  answer :: string

record MedicineAbout =
  description :: string
  keyFacts :: "string list"
  usedFor :: "string list"
  about_content :: "ContentSection list"
  about_lastReviewed :: "string option"

record MedicineContentPage =
  content :: "ContentSection list"
  lastReviewed :: "string option"

record MedicineCommonQuestions =
  questions :: "QuestionAnswer list"
  questions_lastReviewed :: "string option"

record MedicineMetadata =
  scrapedAt :: string
  source :: string

record Medicine =
  name :: string
  slug :: string
  url :: string
  brandNames :: "string list"
  about :: MedicineAbout
  dosage :: "MedicineContentPage option"
  sideEffects :: "MedicineContentPage option"
  pregnancy :: "MedicineContentPage option"
  interactions :: "MedicineContentPage option"
  commonQuestions :: "MedicineCommonQuestions option"
  relatedConditions :: "RelatedCondition list"
  usefulResources :: "UsefulResource list"
  metadata :: MedicineMetadata

record MedicineTask =
  task_slug :: string
  task_url :: string

record RunOptions =
  opt_limit :: "int option"
  opt_slug :: "string option"
  opt_parallelTabs :: "int option"
  opt_headless :: "bool option"
  opt_hardRefresh :: "bool option"

record ScrapeSummary =
  total :: nat
  sum_succeeded :: nat
  sum_failed :: nat
  skipped :: nat
  sum_metadataPath :: string

record OutputMetadataEntry =
  entry_slug :: string
  medicineName :: string
  medicineFilePath :: string

text \<open>The types local to \<open>scraper.ts\<close>.\<close>

record ScrapeState =
  succeeded :: nat
  completed :: nat
  failed :: nat

record LandingData =
  landing_name :: string
  landing_brandNames :: "string list"
  landing_description :: string

record ScrapedPages =
  pages_about :: MedicineAbout
  pages_dosage :: "MedicineContentPage option"
  pages_sideEffects :: "MedicineContentPage option"
  pages_pregnancy :: "MedicineContentPage option"
  pages_interactions :: "MedicineContentPage option"
  pages_commonQuestions :: "MedicineCommonQuestions option"

text \<open>\<open>config.ts\<close>: the validated configuration and the resolved run options.\<close>

record AppConfig =
  cfg_parallelTabs :: int
  cfg_headless :: bool
  navigationTimeoutMs :: int
  retryAttempts :: int
  retryDelayMs :: int
  scrapeLimit :: int
  cfg_outputDir :: string

record ResolvedRunOptions =
  targetLimit :: int
  targetSlug :: "string option"
  parallelTabs :: int
  headless :: bool
  hardRefresh :: bool

definition resolveRunOptions :: "RunOptions \<Rightarrow> AppConfig \<Rightarrow> ResolvedRunOptions" where
  "resolveRunOptions options appConfig =
     \<lparr> targetLimit = (case opt_limit options of None \<Rightarrow> scrapeLimit appConfig | Some l \<Rightarrow> l),
       targetSlug = opt_slug options,
       parallelTabs =
         max 1 (case opt_parallelTabs options of None \<Rightarrow> cfg_parallelTabs appConfig | Some p \<Rightarrow> p),
       headless = (case opt_headless options of None \<Rightarrow> cfg_headless appConfig | Some h \<Rightarrow> h),
       hardRefresh = (case opt_hardRefresh options of None \<Rightarrow> False | Some h \<Rightarrow> h) \<rparr>"


section \<open>The rendered document\<close>

text \<open>
  What \<open>page.evaluate\<close> sees: a tree of element and text nodes. Tag names are in lower
  case. Attributes are left out, as no selector of the functions below reads one.
\<close>

datatype node = Text string | Element string "node list"

fun textContent :: "node \<Rightarrow> string" where
  "textContent (Text s) = s"
| "textContent (Element t cs) = concat (map textContent cs)"

definition matches :: "string list \<Rightarrow> node \<Rightarrow> bool" where
  \<comment> \<open>\<open>node.matches('t1, t2')\<close> for a list of tag selectors\<close>
  "matches tags n = (case n of Text s \<Rightarrow> False | Element t cs \<Rightarrow> t \<in> set tags)"

text \<open>
  An element handle is the element together with the nodes that follow it under its
  parent, which is what \<open>nextElementSibling\<close> walks. \<open>elementsOf\<close> lists the elements
  of a forest in document order.
\<close>

type_synonym element = "node \<times> node list"

fun elementsOf :: "node list \<Rightarrow> element list" where
  "elementsOf [] = []"
| "elementsOf (Text s # rest) = elementsOf rest"
| "elementsOf (Element t cs # rest) = (Element t cs, rest) # elementsOf cs @ elementsOf rest"

definition querySelectorAll :: "string list \<Rightarrow> node \<Rightarrow> element list" where
  \<comment> \<open>the descendants of the node that match, in document order\<close>
  "querySelectorAll tags n =
     (case n of Text s \<Rightarrow> [] | Element t cs \<Rightarrow> filter (\<lambda>e. matches tags (fst e)) (elementsOf cs))"

definition querySelector :: "string list \<Rightarrow> node list \<Rightarrow> node option" where
  \<comment> \<open>\<open>document.querySelector\<close>: the first match among all elements of the document\<close>
  "querySelector tags doc =
     (case filter (\<lambda>e. matches tags (fst e)) (elementsOf doc) of [] \<Rightarrow> None | e # es \<Rightarrow> Some (fst e))"

definition normaliseText :: "string \<Rightarrow> string" where
  \<comment> \<open>\<open>.replace(/\s+/g, ' ').trim()\<close>\<close>
  "normaliseText s = trim (replaceRuns isSpace '' '' s)"

definition headingSelector :: "string list" where
  "headingSelector = [''h2'', ''h3'']"

text \<open>
  The loop of \<open>extractSections\<close> over the nodes after a heading:
  \<open>node = heading.nextElementSibling; while (node && !node.matches(headingSelector)) ...\<close>.
  Text nodes are not element siblings and are stepped over.
\<close>

fun walkSiblings :: "node list \<Rightarrow> ContentSection \<Rightarrow> ContentSection" where
  "walkSiblings [] section = section"
| "walkSiblings (Text s # rest) section = walkSiblings rest section"
| "walkSiblings (Element t cs # rest) section =
     (if matches headingSelector (Element t cs) then section
      else
        let section1 =
              (if matches [''p''] (Element t cs)
               then (let text = normaliseText (textContent (Element t cs))
                     in if text \<noteq> [] then section\<lparr>paragraphs := paragraphs section @ [text]\<rparr>
                        else section)
               else section);
            section2 =
              (if matches [''ul'', ''ol''] (Element t cs)
               then (let items =
                           filter (\<lambda>item. item \<noteq> [])
                             (map (\<lambda>item. normaliseText (textContent (fst item)))
                                (querySelectorAll [''li''] (Element t cs)))
                     in section1\<lparr>bullets := bullets section1 @ items\<rparr>)
               else section1)
        in walkSiblings rest section2)"

definition extractSections :: "node list \<Rightarrow> ContentSection list" where
  "extractSections doc =
     (case querySelector [''main''] doc of
        None \<Rightarrow> []
      | Some main \<Rightarrow>
          filter (\<lambda>section. heading section \<noteq> [])
            (map (\<lambda>h. walkSiblings (snd h)
                        \<lparr> heading = normaliseText (textContent (fst h)),
                          paragraphs = [], bullets = [] \<rparr>)
               (querySelectorAll headingSelector main)))"


section \<open>Landing page title\<close>

definition brandSeparator :: "string \<Rightarrow> string option" where
  \<comment> \<open>\<open>/\s+-\s+Other brand names:\s+/i\<close> at the start of the string\<close>
  "brandSeparator s =
     (let ws1 = takeWhile isSpace s; r1 = dropWhile isSpace s in
      if ws1 = [] then None else
      (case r1 of
         [] \<Rightarrow> None
       | c # r2 \<Rightarrow>
           if c \<noteq> CHR ''-'' then None else
           (let ws2 = takeWhile isSpace r2; r3 = dropWhile isSpace r2 in
            if ws2 = [] then None else
            if map toLower (take 18 r3) \<noteq> ''other brand names:'' then None else
            (let ws3 = takeWhile isSpace (drop 18 r3) in
             if ws3 = [] then None
             else Some (dropWhile isSpace (drop 18 r3))))))"

definition commaOrSlash :: "string \<Rightarrow> string option" where
  \<comment> \<open>\<open>/,|\//\<close> at the start of the string\<close>
  "commaOrSlash s =
     (case s of [] \<Rightarrow> None
      | c # cs \<Rightarrow> if c = CHR '','' \<or> c = CHR ''/'' then Some cs else None)"

definition splitBrands :: "string \<Rightarrow> string list" where
  \<comment> \<open>\<open>.split(/,|\//).map((item) => item.trim()).filter(Boolean)\<close>\<close>
  "splitBrands s = filter (\<lambda>item. item \<noteq> []) (map trim (splitRe commaOrSlash [] s))"

definition bracketMatch :: "string \<Rightarrow> (string \<times> string) option" where
  \<comment> \<open>\<open>left.match(/^(.*?)\((.*?)\)$/)\<close>: the two groups. The lazy first group stops at the
     first opening bracket; the second group must reach the closing bracket that ends the
     string.\<close>
  "bracketMatch left =
     (if left \<noteq> [] \<and> last left = CHR '')'' \<and> CHR ''('' \<in> set (butlast left)
         \<and> \<not> list_ex isLineTerminator left
      then Some (takeWhile (\<lambda>c. c \<noteq> CHR ''('') left,
                 butlast (tl (dropWhile (\<lambda>c. c \<noteq> CHR ''('') left)))
      else None)"

definition parseBrandNames :: "string \<Rightarrow> string \<times> string list" where
  "parseBrandNames title =
     (let cleaned = normaliseText title;
          parts = splitRe brandSeparator [] cleaned;
          left = (case parts of [] \<Rightarrow> cleaned | l # ps \<Rightarrow> l);
          brands =
            (case parts of
               l # right # ps \<Rightarrow> if right \<noteq> [] then splitBrands right else []
             | _ \<Rightarrow> [])
      in case bracketMatch left of
           None \<Rightarrow> (left, new_Set brands)
         | Some (rawName, rawBracketBrands) \<Rightarrow>
             (trim rawName, new_Set (brands @ splitBrands rawBracketBrands)))"


section \<open>Paths and the file system\<close>

text \<open>
  The functions of \<open>node:path\<close> on POSIX paths, for the arguments the scraper passes:
  an absolute, normalised directory and a file name or a relative path below it.
\<close>

definition path_join :: "string \<Rightarrow> string \<Rightarrow> string" where
  "path_join dir base = dir @ ''/'' @ base"

definition path_resolve :: "string \<Rightarrow> string \<Rightarrow> string" where
  "path_resolve dir p = (case p of CHR ''/'' # q \<Rightarrow> p | _ \<Rightarrow> dir @ ''/'' @ p)"

definition path_relative :: "string \<Rightarrow> string \<Rightarrow> string" where
  "path_relative from to =
     (if take (length from + 1) to = from @ ''/'' then drop (length from + 1) to else to)"

definition path_basename :: "string \<Rightarrow> string \<Rightarrow> string" where
  \<comment> \<open>the last portion of the path, without the extension\<close>
  "path_basename p ext =
     (let p1 = rev (dropWhile (\<lambda>c. c = CHR ''/'') (rev p));
          base = rev (takeWhile (\<lambda>c. c \<noteq> CHR ''/'') (rev p1))
      in if length ext \<le> length base \<and> drop (length base - length ext) base = ext
         then take (length base - length ext) base
         else base)"

text \<open>
  A file holds the value that was serialised into it: \<open>JSON.parse\<close> of a file written
  with \<open>JSON.stringify\<close> gives that value back, and anything else at the metadata path
  makes \<open>loadMetadata\<close> fall into its \<open>catch\<close>.
\<close>

datatype fileContent =
    MedicineFile Medicine
  | MetadataFile "OutputMetadataEntry list"
  | OtherFile string

type_synonym filesystem = "string \<rightharpoonup> fileContent"

text \<open>
  What a failed extraction throws, by the classes the \<open>p-retry\<close> package tells apart:
  a \<open>TypeError\<close> that is not a network failure (\<open>new URL\<close> on a malformed link
  throws one), a \<open>TypeError\<close> the package recognises as a network failure, and any
  other \<open>Error\<close> (a failed navigation, a timeout).
\<close>

datatype thrown = Error string | TypeError string | NetworkError string

definition retryable :: "thrown \<Rightarrow> bool" where
  \<comment> \<open>\<open>!(error instanceof TypeError && !isNetworkError(error))\<close>\<close>
  "retryable err = (case err of TypeError msg \<Rightarrow> False | _ \<Rightarrow> True)"

text \<open>
  What the run does not control: the rendered site, the disk and the order in which
  concurrent tasks finish.
\<close>

record environment =
  cwd :: string
  rendered :: "MedicineTask \<Rightarrow> nat \<Rightarrow> thrown + (LandingData \<times> ScrapedPages \<times> RelatedCondition list \<times> UsefulResource list \<times> string)"
    \<comment> \<open>what the \<open>k\<close>-th call of \<open>scrapeMedicine\<close> for a task reads from the site before
       \<open>composeMedicine\<close>: the error thrown, or the landing data, the pages,
       the related links and the time of the scrape\<close>
  writeFails :: "string \<Rightarrow> bool"
    \<comment> \<open>the paths at which \<open>writeFile\<close> rejects\<close>
  completionOrder :: "MedicineTask list \<Rightarrow> MedicineTask list"
    \<comment> \<open>the order in which the extractions of the queued tasks finish\<close>

definition access :: "filesystem \<Rightarrow> string \<Rightarrow> bool" where
  \<comment> \<open>\<open>await access(p)\<close> does not throw\<close>
  "access fs p = (fs p \<noteq> None)"

definition writeFile :: "environment \<Rightarrow> filesystem \<Rightarrow> string \<Rightarrow> fileContent \<Rightarrow> string + filesystem" where
  "writeFile env fs p data =
     (if writeFails env p then Inl (''cannot write '' @ p) else Inr (fs(p \<mapsto> data)))"


section \<open>The output store (\<open>utils.ts\<close>)\<close>

text \<open>
  \<open>metadataWriteQueue\<close>, a queue of concurrency 1, is not a field here: it makes the
  body of \<open>persistMedicine\<close> run without interleaving, which the model has by construction.
\<close>

record OutputStore =
  outputDir :: string
  medicinesDir :: string
  metadataPath :: string
  metadata :: "OutputMetadataEntry list"

definition loadMetadata :: "filesystem \<Rightarrow> string \<Rightarrow> OutputMetadataEntry list" where
  "loadMetadata fs mpath =
     (case fs mpath of
        Some (MetadataFile items) \<Rightarrow>
          map (\<lambda>item. item\<lparr>entry_slug :=
                 (if entry_slug item \<noteq> [] then entry_slug item
                  else path_basename (medicineFilePath item) ''.json'')\<rparr>) items
      | _ \<Rightarrow> [])"

definition prepareOutputStore :: "environment \<Rightarrow> filesystem \<Rightarrow> string \<Rightarrow> OutputStore" where
  \<comment> \<open>\<open>mkdir\<close> is taken to succeed; directories are not files of the model\<close>
  "prepareOutputStore env fs outputDirPath =
     (let dir = path_resolve (cwd env) outputDirPath;
          mdir = path_join dir ''medicines'';
          mpath = path_join dir ''metadata.json''
      in \<lparr> outputDir = dir, medicinesDir = mdir, metadataPath = mpath,
           metadata = loadMetadata fs mpath \<rparr>)"


section \<open>The scraper (\<open>scraper.ts\<close>)\<close>

definition selectTasks :: "MedicineTask list \<Rightarrow> string option \<Rightarrow> int \<Rightarrow> MedicineTask list" where
  \<comment> \<open>\<open>targetSlug ? ... : ...\<close> tests truthiness: \<open>undefined\<close> and the empty string are falsy\<close>
  "selectTasks allMedicines targetSlug' targetLimit' =
     (let filtered =
            (case targetSlug' of
               None \<Rightarrow> allMedicines
             | Some s \<Rightarrow>
                 if s \<noteq> [] then filter (\<lambda>item. task_slug item = s) allMedicines
                 else allMedicines)
      in if targetLimit' > 0 then take (nat targetLimit') filtered else filtered)"

primrec getCachedSlugs_loop ::
  "filesystem \<Rightarrow> string \<Rightarrow> OutputMetadataEntry list \<Rightarrow> string set \<Rightarrow> string set" where
  "getCachedSlugs_loop fs dir [] cachedSlugs = cachedSlugs"
| "getCachedSlugs_loop fs dir (item # items) cachedSlugs =
     getCachedSlugs_loop fs dir items
       (if access fs (path_resolve dir (medicineFilePath item))
        then insert (entry_slug item) cachedSlugs else cachedSlugs)"

definition getCachedSlugs :: "filesystem \<Rightarrow> string \<Rightarrow> OutputMetadataEntry list \<Rightarrow> string set" where
  "getCachedSlugs fs dir items = getCachedSlugs_loop fs dir items {}"

text \<open>The \<open>filter\<close> callback of \<open>applyCachePolicy\<close>, which counts what it drops.\<close>

primrec filterCached :: "string set \<Rightarrow> MedicineTask list \<Rightarrow> nat \<Rightarrow> MedicineTask list \<times> nat" where
  "filterCached cachedSlugs [] skipped' = ([], skipped')"
| "filterCached cachedSlugs (task # tasks) skipped' =
     (if task_slug task \<notin> cachedSlugs
      then (let r = filterCached cachedSlugs tasks skipped' in (task # fst r, snd r))
      else filterCached cachedSlugs tasks (skipped' + 1))"

definition applyCachePolicy ::
  "filesystem \<Rightarrow> MedicineTask list \<Rightarrow> OutputStore \<Rightarrow> bool \<Rightarrow> MedicineTask list \<times> nat" where
  \<comment> \<open>the pair is \<open>{ tasksToRun, skipped }\<close>\<close>
  "applyCachePolicy fs tasks outputStore hardRefresh' =
     (if hardRefresh' then (tasks, 0)
      else filterCached (getCachedSlugs fs (outputDir outputStore) (metadata outputStore)) tasks 0)"

definition toMedicineFileName :: "Medicine \<Rightarrow> string" where
  \<comment> \<open>\<open>name.replace(/[^a-zA-Z0-9]+/g, '-').replace(/^-+|-+$/g, '') || slug\<close>\<close>
  "toMedicineFileName medicine =
     (let dashed = replaceRuns (\<lambda>c. \<not> isAlnum c) ''-'' (name medicine);
          stripped = rev (dropWhile (\<lambda>c. c = CHR ''-'') (rev (dropWhile (\<lambda>c. c = CHR ''-'') dashed)))
      in if stripped \<noteq> [] then stripped else slug medicine)"

fun findIndex :: "('a \<Rightarrow> bool) \<Rightarrow> 'a list \<Rightarrow> nat option" where
  \<comment> \<open>\<open>None\<close> is the \<open>-1\<close> of \<open>Array.prototype.findIndex\<close>\<close>
  "findIndex p [] = None"
| "findIndex p (x # xs) =
     (if p x then Some 0 else (case findIndex p xs of None \<Rightarrow> None | Some i \<Rightarrow> Some (Suc i)))"

definition upsertMetadata ::
  "OutputMetadataEntry list \<Rightarrow> string \<Rightarrow> string \<Rightarrow> string \<Rightarrow> OutputMetadataEntry list" where
  "upsertMetadata items slug' medicineName' medicineFilePath' =
     (let existingIndex = findIndex (\<lambda>item. entry_slug item = slug') items;
          nextEntry = \<lparr> entry_slug = slug', medicineName = medicineName',
                        medicineFilePath = medicineFilePath' \<rparr>
      in case existingIndex of
           Some i \<Rightarrow> items[i := nextEntry]
         | None \<Rightarrow> items @ [nextEntry])"

definition medicineArtifactPath :: "OutputStore \<Rightarrow> Medicine \<Rightarrow> string" where
  \<comment> \<open>\<open>medicineFilePath\<close> of \<open>persistMedicine\<close>\<close>
  "medicineArtifactPath outputStore medicine =
     path_join (medicinesDir outputStore) (toMedicineFileName medicine @ ''.json'')"

text \<open>
  \<open>persistMedicine\<close> returns the error it throws, if any, with the store and the disk as
  it leaves them: a failed write of the index comes after the artifact was written and
  the entry upserted in memory.
\<close>

definition persistMedicine ::
  "environment \<Rightarrow> MedicineTask \<Rightarrow> Medicine \<Rightarrow> OutputStore \<times> filesystem
     \<Rightarrow> string option \<times> OutputStore \<times> filesystem" where
  "persistMedicine env task medicine st =
     (let outputStore = fst st; fs = snd st;
          filePath = medicineArtifactPath outputStore medicine
      in case writeFile env fs filePath (MedicineFile medicine) of
           Inl err \<Rightarrow> (Some err, outputStore, fs)
         | Inr fs1 \<Rightarrow>
             (let relativeFilePath = path_relative (outputDir outputStore) filePath;
                  outputStore1 = outputStore\<lparr>metadata :=
                    upsertMetadata (metadata outputStore) (task_slug task) (name medicine)
                      relativeFilePath\<rparr>
              in case writeFile env fs1 (metadataPath outputStore1)
                        (MetadataFile (metadata outputStore1)) of
                   Inl err \<Rightarrow> (Some err, outputStore1, fs1)
                 | Inr fs2 \<Rightarrow> (None, outputStore1, fs2)))"

definition composeMedicine ::
  "MedicineTask \<Rightarrow> LandingData \<Rightarrow> ScrapedPages \<Rightarrow> RelatedCondition list \<Rightarrow> UsefulResource list
     \<Rightarrow> string \<Rightarrow> Medicine" where
  \<comment> \<open>the last argument is \<open>new Date().toISOString()\<close>\<close>
  "composeMedicine task landing pages related useful now =
     \<lparr> name = landing_name landing,
       slug = task_slug task,
       url = task_url task,
       brandNames = landing_brandNames landing,
       about = pages_about pages,
       dosage = pages_dosage pages,
       sideEffects = pages_sideEffects pages,
       pregnancy = pages_pregnancy pages,
       interactions = pages_interactions pages,
       commonQuestions = pages_commonQuestions pages,
       relatedConditions = related,
       usefulResources = useful,
       metadata = \<lparr> scrapedAt = now, source = ''nhs'' \<rparr> \<rparr>"

definition scrapeMedicine :: "environment \<Rightarrow> MedicineTask \<Rightarrow> nat \<Rightarrow> thrown + Medicine" where
  \<comment> \<open>the \<open>k\<close>-th call for the task: navigation and extraction throw, or the record is composed\<close>
  "scrapeMedicine env task k =
     (case rendered env task k of
        Inl err \<Rightarrow> Inl err
      | Inr (landing, pages, related, useful, now) \<Rightarrow>
          Inr (composeMedicine task landing pages related useful now))"

text \<open>
  \<open>pRetry(input, {retries, minTimeout: d, maxTimeout: d, factor: 1, randomize: false})\<close>
  of the \<open>p-retry\<close> package. A negative timeout is refused before \<open>input\<close> is called.
  Otherwise \<open>input\<close> is called; when it throws, retries are left and the error is not a
  \<open>TypeError\<close> other than a network failure, the package waits \<open>d\<close> milliseconds and
  calls it again; in every other case the error is the result. The run records how often
  \<open>input\<close> was called and the waits between the calls.
\<close>

record 'a RetryRun =
  outcome :: "thrown + 'a"
  attempts :: nat
  delays :: "int list"

fun pRetry_from :: "(nat \<Rightarrow> thrown + 'a) \<Rightarrow> int \<Rightarrow> nat \<Rightarrow> nat \<Rightarrow> 'a RetryRun" where
  "pRetry_from input d attemptNumber 0 =
     \<lparr> outcome = input attemptNumber, attempts = 1, delays = [] \<rparr>"
| "pRetry_from input d attemptNumber (Suc retriesLeft) =
     (case input attemptNumber of
        Inr v \<Rightarrow> \<lparr> outcome = Inr v, attempts = 1, delays = [] \<rparr>
      | Inl err \<Rightarrow>
          if retryable err
          then (let r = pRetry_from input d (Suc attemptNumber) retriesLeft
                in r\<lparr> attempts := Suc (attempts r), delays := d # delays r \<rparr>)
          else \<lparr> outcome = Inl err, attempts = 1, delays = [] \<rparr>)"

definition pRetry :: "(nat \<Rightarrow> thrown + 'a) \<Rightarrow> nat \<Rightarrow> int \<Rightarrow> 'a RetryRun" where
  "pRetry input retries d =
     (if d < 0
      then \<lparr> outcome = Inl (Error ''Expected `minTimeout` to be a non-negative number''),
             attempts = 0, delays = [] \<rparr>
      else pRetry_from input d 1 retries)"

definition retryScrapeMedicine :: "AppConfig \<Rightarrow> environment \<Rightarrow> MedicineTask \<Rightarrow> Medicine RetryRun" where
  "retryScrapeMedicine appConfig env task =
     pRetry (\<lambda>attempt. scrapeMedicine env task attempt)
       (nat (max 0 (retryAttempts appConfig - 1)))
       (retryDelayMs appConfig)"

text \<open>
  One task, from the moment its page is open: \<open>try\<close>, \<open>catch\<close>, \<open>finally\<close>. Opening and
  closing the page are taken to succeed; logging changes nothing that is modelled.
\<close>

definition processMedicineTask ::
  "AppConfig \<Rightarrow> environment \<Rightarrow> MedicineTask \<Rightarrow> OutputStore \<times> filesystem \<times> ScrapeState
     \<Rightarrow> OutputStore \<times> filesystem \<times> ScrapeState" where
  "processMedicineTask appConfig env task st =
     (let outputStore = fst st; fs = fst (snd st); state = snd (snd st) in
      case outcome (retryScrapeMedicine appConfig env task) of
        Inl err \<Rightarrow>
          (outputStore, fs,
           state\<lparr> failed := failed state + 1, completed := completed state + 1 \<rparr>)
      | Inr medicine \<Rightarrow>
          (let state1 = state\<lparr> succeeded := succeeded state + 1 \<rparr>;
               persisted = persistMedicine env task medicine (outputStore, fs);
               outputStore1 = fst (snd persisted); fs1 = snd (snd persisted)
           in case fst persisted of
                None \<Rightarrow> (outputStore1, fs1, state1\<lparr> completed := completed state1 + 1 \<rparr>)
              | Some err \<Rightarrow>
                  (outputStore1, fs1,
                   state1\<lparr> failed := failed state1 + 1, completed := completed state1 + 1 \<rparr>)))"

definition queueConcurrency :: "int \<Rightarrow> nat \<Rightarrow> int" where
  \<comment> \<open>\<open>Math.min(parallelTabs, Math.max(1, totalQueued))\<close>\<close>
  "queueConcurrency parallelTabs' totalQueued = min parallelTabs' (max 1 (int totalQueued))"

text \<open>
  What \<open>runTaskQueue\<close> leaves behind once \<open>queue.onIdle()\<close> resolves. A task changes the
  counters and the store when its extraction has finished, and \<open>metadataWriteQueue\<close>
  runs the writes one at a time in that order; so the result is that of the tasks run
  one after the other in the order their extractions finish.
\<close>

definition runTaskQueue ::
  "AppConfig \<Rightarrow> environment \<Rightarrow> MedicineTask list \<Rightarrow> OutputStore \<times> filesystem \<times> ScrapeState
     \<Rightarrow> OutputStore \<times> filesystem \<times> ScrapeState" where
  "runTaskQueue appConfig env tasksToRun st =
     foldl (\<lambda>acc task. processMedicineTask appConfig env task acc) st
       (completionOrder env tasksToRun)"

text \<open>
  \<open>run\<close>, given the tasks \<open>scrapeIndexFromContext\<close> returned. The result is the summary
  and the disk after the run.
\<close>

definition run ::
  "AppConfig \<Rightarrow> environment \<Rightarrow> RunOptions \<Rightarrow> MedicineTask list \<Rightarrow> filesystem
     \<Rightarrow> ScrapeSummary \<times> filesystem" where
  "run appConfig env options allMedicines fs =
     (let runOptions = resolveRunOptions options appConfig;
          selected = selectTasks allMedicines (targetSlug runOptions) (targetLimit runOptions);
          outputStore = prepareOutputStore env fs (cfg_outputDir appConfig);
          cachePolicy = applyCachePolicy fs selected outputStore (hardRefresh runOptions);
          tasksToRun = fst cachePolicy;
          totalQueued = length tasksToRun;
          state = \<lparr> succeeded = 0, completed = 0, failed = 0 \<rparr>;
          final = runTaskQueue appConfig env tasksToRun (outputStore, fs, state);
          state1 = snd (snd final)
      in (\<lparr> total = totalQueued,
            sum_succeeded = succeeded state1,
            sum_failed = failed state1,
            skipped = snd cachePolicy,
            sum_metadataPath = metadataPath outputStore \<rparr>,
          fst (snd final)))"


section \<open>The task queue\<close>

text \<open>
  The \<open>p-queue\<close> package as \<open>runTaskQueue\<close> uses it: a queue is created with a
  concurrency of at least 1 (the constructor throws otherwise), \<open>add\<close> starts the task
  at once when fewer than that many are running and lets it wait otherwise, and when a
  running task settles the first waiting one is started. \<open>waiting\<close> are the tasks
  not yet started, \<open>running\<close> the ones in flight, \<open>settled\<close> the ones whose
  \<open>processMedicineTask\<close> has returned.
\<close>

record 'a PQueue =
  concurrency :: nat
  waiting :: "'a list"
  running :: "'a list"
  settled :: "'a list"

definition newPQueue :: "int \<Rightarrow> 'a PQueue option" where
  "newPQueue c =
     (if c \<ge> 1 then Some \<lparr> concurrency = nat c, waiting = [], running = [], settled = [] \<rparr>
      else None)"

definition tryToStartAnother :: "'a PQueue \<Rightarrow> 'a PQueue" where
  "tryToStartAnother q =
     (case waiting q of
        [] \<Rightarrow> q
      | t # ts \<Rightarrow>
          if length (running q) < concurrency q
          then q\<lparr> waiting := ts, running := running q @ [t] \<rparr>
          else q)"

definition queue_add :: "'a PQueue \<Rightarrow> 'a \<Rightarrow> 'a PQueue" where
  "queue_add q t = tryToStartAnother (q\<lparr> waiting := waiting q @ [t] \<rparr>)"

definition queue_settle :: "'a PQueue \<Rightarrow> nat \<Rightarrow> 'a PQueue" where
  \<comment> \<open>the \<open>i\<close>-th running task settles\<close>
  "queue_settle q i =
     tryToStartAnother
       (q\<lparr> running := take i (running q) @ drop (Suc i) (running q),
           settled := settled q @ [running q ! i] \<rparr>)"


text \<open>
  \<open>runTaskQueue\<close> step by step: the queue is created with
  \<open>queueConcurrency parallelTabs totalQueued\<close>, the loop adds the tasks one by one
  (\<open>k\<close> of them so far), and after the loop, while \<open>await queue.onIdle()\<close> is pending,
  running tasks settle in any order. A task that settles has run
  \<open>processMedicineTask\<close> on the store, the disk and the counters. \<open>runTaskQueue\<close>
  returns in a state in which all tasks are added and \<open>onIdle\<close> holds.
\<close>

inductive queueRun ::
  "AppConfig \<Rightarrow> environment \<Rightarrow> int \<Rightarrow> MedicineTask list \<Rightarrow> OutputStore \<times> filesystem \<times> ScrapeState
     \<Rightarrow> nat \<Rightarrow> MedicineTask PQueue \<Rightarrow> OutputStore \<times> filesystem \<times> ScrapeState \<Rightarrow> bool"
  for appConfig :: AppConfig and env :: environment and parallelTabs' :: int
    and tasksToRun :: "MedicineTask list" and st0 :: "OutputStore \<times> filesystem \<times> ScrapeState" where
  created:
    "newPQueue (queueConcurrency parallelTabs' (length tasksToRun)) = Some q
     \<Longrightarrow> queueRun appConfig env parallelTabs' tasksToRun st0 0 q st0"
| added:
    "queueRun appConfig env parallelTabs' tasksToRun st0 k q st \<Longrightarrow> k < length tasksToRun
     \<Longrightarrow> queueRun appConfig env parallelTabs' tasksToRun st0 (Suc k)
           (queue_add q (tasksToRun ! k)) st"
| task_settled:
    "queueRun appConfig env parallelTabs' tasksToRun st0 (length tasksToRun) q st
     \<Longrightarrow> i < length (running q)
     \<Longrightarrow> queueRun appConfig env parallelTabs' tasksToRun st0 (length tasksToRun)
           (queue_settle q i) (processMedicineTask appConfig env (running q ! i) st)"


section \<open>Outcomes of a task\<close>

text \<open>
  Two predicates to state what a run counts: the extraction of the task, with its
  retries, returns a record; and it returns a record that \<open>persistMedicine\<close> then
  fails to write, the artifact or the index.
\<close>

definition extracted :: "AppConfig \<Rightarrow> environment \<Rightarrow> MedicineTask \<Rightarrow> bool" where
  "extracted appConfig env task =
     (case outcome (retryScrapeMedicine appConfig env task) of Inl err \<Rightarrow> False | Inr m \<Rightarrow> True)"

definition lostWrite :: "AppConfig \<Rightarrow> environment \<Rightarrow> OutputStore \<Rightarrow> MedicineTask \<Rightarrow> bool" where
  "lostWrite appConfig env outputStore task =
     (case outcome (retryScrapeMedicine appConfig env task) of
        Inl err \<Rightarrow> False
      | Inr m \<Rightarrow>
          writeFails env (path_join (medicinesDir outputStore) (toMedicineFileName m @ ''.json''))
          \<or> writeFails env (metadataPath outputStore))"


section \<open>Example inputs\<close>

definition taskOf :: "string \<Rightarrow> MedicineTask" where
  "taskOf s = \<lparr> task_slug = s, task_url = ''https://www.nhs.uk/medicines/'' @ s @ ''/'' \<rparr>"

definition example_tasks :: "MedicineTask list" where
  "example_tasks =
     map taskOf [''aciclovir'', ''amlodipine'', ''aspirin'', ''codeine'', ''ibuprofen'',
       ''metformin'', ''omeprazole'', ''paracetamol'', ''ramipril'', ''varenicline'']"


definition example_pages :: ScrapedPages where
  "example_pages =
     \<lparr> pages_about = \<lparr> description = ''About this medicine'', keyFacts = [], usedFor = [],
                       about_content = [], about_lastReviewed = None \<rparr>,
       pages_dosage = None, pages_sideEffects = None, pages_pregnancy = None,
       pages_interactions = None, pages_commonQuestions = None \<rparr>"

definition medicineOf :: "MedicineTask \<Rightarrow> string \<Rightarrow> Medicine" where
  \<comment> \<open>the record composed for a task whose landing page gives this display name\<close>
  "medicineOf task displayName =
     composeMedicine task
       \<lparr> landing_name = displayName, landing_brandNames = [], landing_description = [] \<rparr>
       example_pages [] [] ''2026-01-01T00:00:00.000Z''"

definition example_config :: AppConfig where
  "example_config =
     \<lparr> cfg_parallelTabs = 4, cfg_headless = True, navigationTimeoutMs = 30000,
       retryAttempts = 3, retryDelayMs = 750, scrapeLimit = 0, cfg_outputDir = ''data'' \<rparr>"

definition example_store :: OutputStore where
  "example_store =
     \<lparr> outputDir = ''/app/data'', medicinesDir = ''/app/data/medicines'',
       metadataPath = ''/app/data/metadata.json'', metadata = [] \<rparr>"


definition example_env :: environment where
  \<comment> \<open>a site on which one page cannot be reached and one has a malformed link, and a disk
     on which every write succeeds\<close>
  "example_env =
     \<lparr> cwd = ''/app'',
       rendered = (\<lambda>task k.
         if task_slug task = ''unreachable'' then Inl (Error ''Navigation failed 500'')
         else if task_slug task = ''malformed-link'' then Inl (TypeError ''Invalid URL'')
         else Inr (\<lparr> landing_name = task_slug task, landing_brandNames = [],
                       landing_description = [] \<rparr>,
                   example_pages, [], [], ''2026-01-01T00:00:00.000Z'')),
       writeFails = (\<lambda>p. False),
       completionOrder = (\<lambda>tasks. tasks) \<rparr>"

definition example_options :: RunOptions where
  "example_options =
     \<lparr> opt_limit = None, opt_slug = None, opt_parallelTabs = None, opt_headless = None,
       opt_hardRefresh = None \<rparr>"


section \<open>Selection\<close>

lemma subseq_take: "subseq (take n xs) xs"
  by (rule prefix_imp_subseq) (rule take_is_prefix)

lemma filter_slug_le_one:
  "distinct (map task_slug tasks) \<Longrightarrow> length (filter (\<lambda>t. task_slug t = s) tasks) \<le> 1"
proof (induction tasks)
  case Nil
  then show ?case by simp
next
  case (Cons t ts)
  show ?case
  proof (cases "task_slug t = s")
    case True
    from Cons.prems have "task_slug t \<notin> set (map task_slug ts)" by simp
    then have "\<forall>x\<in>set ts. task_slug x \<noteq> task_slug t" by (metis image_eqI set_map)
    with True have "filter (\<lambda>t. task_slug t = s) ts = []"
      by (simp add: filter_empty_conv)
    with True show ?thesis by simp
  next
    case False
    with Cons show ?thesis by simp
  qed
qed

text \<open>
  C7, as the code has it. Without a slug filter, and also with the empty string as
  filter, \<open>selectTasks\<close> passes every task on; with a non-empty filter it keeps the tasks
  whose slug equals it, at most one when slugs are unique. Then a positive limit keeps the
  first \<open>limit\<close> tasks and a limit of zero or less keeps all. The result is always a
  subsequence of the discovered list, so discovery order is preserved.
\<close>

theorem selectTasks_selection:
  "selectTasks tasks None lim = (if lim > 0 then take (nat lim) tasks else tasks)
   \<and> selectTasks tasks (Some []) lim = (if lim > 0 then take (nat lim) tasks else tasks)
   \<and> (s \<noteq> [] \<longrightarrow>
        selectTasks tasks (Some s) lim =
          (if lim > 0 then take (nat lim) (filter (\<lambda>t. task_slug t = s) tasks)
           else filter (\<lambda>t. task_slug t = s) tasks))
   \<and> (s \<noteq> [] \<and> distinct (map task_slug tasks) \<longrightarrow> length (selectTasks tasks (Some s) lim) \<le> 1)
   \<and> subseq (selectTasks tasks f lim) tasks"
proof -
  have sub: "subseq (selectTasks tasks f lim) tasks"
  proof -
    have "subseq (filter (\<lambda>t. task_slug t = x) tasks) tasks" for x by simp
    then show ?thesis
      unfolding selectTasks_def Let_def
      by (auto split: option.splits intro: subseq_order.order_trans[OF subseq_take])
  qed
  have one: "length (selectTasks tasks (Some s) lim) \<le> 1"
    if "s \<noteq> []" "distinct (map task_slug tasks)"
  proof -
    have "length (filter (\<lambda>t. task_slug t = s) tasks) \<le> 1"
      using that(2) by (rule filter_slug_le_one)
    with that(1) show ?thesis by (simp add: selectTasks_def Let_def)
  qed
  show ?thesis using sub one by (simp add: selectTasks_def Let_def)
qed

theorem selectTasks_selection_witness:
  "selectTasks example_tasks None 3 = [taskOf ''aciclovir'', taskOf ''amlodipine'', taskOf ''aspirin'']
   \<and> selectTasks example_tasks (Some ''codeine'') 0 = [taskOf ''codeine'']
   \<and> length (selectTasks example_tasks (Some ''codeine'') 0) \<le> 1
   \<and> subseq (selectTasks example_tasks (Some ''codeine'') 0) example_tasks"
proof -
  have d: "distinct (map task_slug example_tasks)"
    by (simp add: example_tasks_def taskOf_def)
  have n: "''codeine'' \<noteq> []" by simp
  show ?thesis
    using d n selectTasks_selection [of example_tasks 3 "''codeine''" None]
      selectTasks_selection [of example_tasks 0 "''codeine''" "Some ''codeine''"]
    by (simp add: example_tasks_def taskOf_def)
qed

theorem selectTasks_empty_filter_counterexample:
  "selectTasks [taskOf ''aciclovir'', taskOf ''aspirin''] (Some '''') 0
     = [taskOf ''aciclovir'', taskOf ''aspirin'']
   \<and> filter (\<lambda>t. task_slug t = '''') [taskOf ''aciclovir'', taskOf ''aspirin''] = []"
  by (simp add: selectTasks_def taskOf_def)


section \<open>Brand names\<close>

lemma set_new_Set: "set (new_Set xs) = set xs"
  by (induction xs rule: new_Set.induct) auto

lemma distinct_new_Set: "distinct (new_Set xs)"
  by (induction xs rule: new_Set.induct) (auto simp: set_new_Set)

lemma splitRe_not_Nil: "splitRe m acc s \<noteq> []"
  by (induction m acc s rule: splitRe.induct) (auto split: option.splits)

lemma splitBrands_Nil: "splitBrands [] = []"
  by (simp add: splitBrands_def trim_def)

lemma bracketMatch_trailing:
  assumes "CHR ''('' \<notin> set n" and "\<not> list_ex isLineTerminator (n @ b)"
  shows "bracketMatch (n @ ''('' @ b @ '')'') = Some (n, b)"
proof -
  have tw: "takeWhile (\<lambda>c. c \<noteq> CHR ''('') (n @ ''('' @ b @ '')'') = n"
    using assms(1) by (subst takeWhile_append2) auto
  have dw: "dropWhile (\<lambda>c. c \<noteq> CHR ''('') (n @ ''('' @ b @ '')'') = ''('' @ b @ '')''"
    using assms(1) by (subst dropWhile_append2) auto
  have bl: "butlast (n @ ''('' @ b @ '')'') = n @ ''('' @ b"
    by (simp add: butlast_append)
  have lt: "\<not> list_ex isLineTerminator (n @ ''('' @ b @ '')'')"
    using assms(2) by (simp add: list_ex_iff isLineTerminator_def)
  show ?thesis
    unfolding bracketMatch_def using tw dw bl lt by (simp add: butlast_append)
qed

text \<open>
  C8. The title of the example parses to the name \<open>Paracetamol\<close> and the brands Hedex,
  Panadol and Calpol. For every title: the brand list has no duplicates; the title, with
  white space collapsed, is split at \<open>- Other brand names:\<close>; when the left part ends
  in a bracket the name is the text before the bracket, trimmed, and the brands are those
  right of the separator together with those in the bracket; otherwise the name is the
  left part. A left part \<open>n(b)\<close> is matched as name \<open>n\<close> and bracket \<open>b\<close>.
\<close>

theorem parseBrandNames_brands:
  "parseBrandNames ''Paracetamol (Panadol, Calpol) - Other brand names: Hedex''
     = (''Paracetamol'', [''Hedex'', ''Panadol'', ''Calpol''])
   \<and> set (snd (parseBrandNames ''Paracetamol (Panadol, Calpol) - Other brand names: Hedex''))
     = {''Panadol'', ''Calpol'', ''Hedex''}
   \<and> distinct (snd (parseBrandNames title))
   \<and> (let parts = splitRe brandSeparator [] (normaliseText title);
           fromRight = (case parts of l # right # ps \<Rightarrow> splitBrands right | _ \<Rightarrow> [])
       in case bracketMatch (hd parts) of
            None \<Rightarrow>
              fst (parseBrandNames title) = hd parts
              \<and> set (snd (parseBrandNames title)) = set fromRight
          | Some (rawName, inBracket) \<Rightarrow>
              fst (parseBrandNames title) = trim rawName
              \<and> set (snd (parseBrandNames title)) = set fromRight \<union> set (splitBrands inBracket))
   \<and> (CHR ''('' \<notin> set n \<and> \<not> list_ex isLineTerminator (n @ b)
        \<longrightarrow> bracketMatch (n @ ''('' @ b @ '')'') = Some (n, b))"
proof -
  have ex: "parseBrandNames ''Paracetamol (Panadol, Calpol) - Other brand names: Hedex''
     = (''Paracetamol'', [''Hedex'', ''Panadol'', ''Calpol''])"
    by code_simp
  have exset: "set (snd (parseBrandNames ''Paracetamol (Panadol, Calpol) - Other brand names: Hedex''))
     = {''Panadol'', ''Calpol'', ''Hedex''}"
    unfolding ex by auto
  have dist: "distinct (snd (parseBrandNames title))"
    by (simp add: parseBrandNames_def Let_def distinct_new_Set split: option.splits prod.splits)
  define parts where "parts = splitRe brandSeparator [] (normaliseText title)"
  have ne: "parts \<noteq> []" unfolding parts_def by (rule splitRe_not_Nil)
  then obtain l ps where lps: "parts = l # ps" by (cases parts) auto
  have gen: "(let parts = splitRe brandSeparator [] (normaliseText title);
           fromRight = (case parts of l # right # ps \<Rightarrow> splitBrands right | _ \<Rightarrow> [])
       in case bracketMatch (hd parts) of
            None \<Rightarrow>
              fst (parseBrandNames title) = hd parts
              \<and> set (snd (parseBrandNames title)) = set fromRight
          | Some (rawName, inBracket) \<Rightarrow>
              fst (parseBrandNames title) = trim rawName
              \<and> set (snd (parseBrandNames title)) = set fromRight \<union> set (splitBrands inBracket))"
    unfolding parseBrandNames_def Let_def parts_def[symmetric] lps
    by (cases ps) (auto simp: set_new_Set splitBrands_Nil split: option.splits)
  show ?thesis
    using ex exset dist gen bracketMatch_trailing by blast
qed

theorem parseBrandNames_brands_witness:
  "distinct (snd (parseBrandNames ''Co-codamol  (Zapain / Solpadol) -  other BRAND names: Kapake, Zapain''))
   \<and> parseBrandNames ''Co-codamol  (Zapain / Solpadol) -  other BRAND names: Kapake, Zapain''
       = (''Co-codamol'', [''Kapake'', ''Zapain'', ''Solpadol''])
   \<and> bracketMatch ''Co-codamol (Zapain / Solpadol)'' = Some (''Co-codamol '', ''Zapain / Solpadol'')"
proof -
  have v: "parseBrandNames ''Co-codamol  (Zapain / Solpadol) -  other BRAND names: Kapake, Zapain''
       = (''Co-codamol'', [''Kapake'', ''Zapain'', ''Solpadol''])"
    by code_simp
  have h: "CHR ''('' \<notin> set ''Co-codamol '' \<and> \<not> list_ex isLineTerminator (''Co-codamol '' @ ''Zapain / Solpadol'')"
    by (simp add: isLineTerminator_def)
  show ?thesis
    using v h
      parseBrandNames_brands [of "''Co-codamol  (Zapain / Solpadol) -  other BRAND names: Kapake, Zapain''"
        "''Co-codamol ''" "''Zapain / Solpadol''"]
    by simp
qed


section \<open>Artifact file names\<close>

lemma replaceRuns_keeps:
  "\<forall>c\<in>set r. p c \<Longrightarrow> filter (\<lambda>c. \<not> p c) (replaceRuns p r s) = filter (\<lambda>c. \<not> p c) s"
proof (induction p r s rule: replaceRuns.induct)
  case (1 p r)
  then show ?case by simp
next
  case (2 p r c cs)
  have dw: "filter (\<lambda>c. \<not> p c) (dropWhile p cs) = filter (\<lambda>c. \<not> p c) cs"
    by (induction cs) auto
  have r: "filter (\<lambda>c. \<not> p c) r = []"
    using "2.prems" by (simp add: filter_empty_conv)
  show ?case
  proof (cases "p c")
    case True
    with 2 dw r show ?thesis by simp
  next
    case False
    with 2 show ?thesis by simp
  qed
qed

lemma replaceRuns_all: "\<forall>c\<in>set s. p c \<Longrightarrow> set (replaceRuns p r s) \<subseteq> set r"
proof (cases s)
  case Nil
  then show ?thesis by simp
next
  case (Cons c cs)
  assume a: "\<forall>c\<in>set s. p c"
  with Cons have dw: "dropWhile p cs = []" by simp
  from a Cons have "replaceRuns p r s = r @ replaceRuns p r (dropWhile p cs)" by simp
  also have "\<dots> = r" unfolding dw by simp
  finally show ?thesis by simp
qed

lemma filter_dropWhile_weaker:
  "(\<And>c. q c \<Longrightarrow> p c) \<Longrightarrow> filter (\<lambda>c. \<not> p c) (dropWhile q xs) = filter (\<lambda>c. \<not> p c) xs"
  by (induction xs) auto

lemma stripped_name_keeps_alnum:
  "filter isAlnum
     (rev (dropWhile (\<lambda>c. c = CHR ''-'')
        (rev (dropWhile (\<lambda>c. c = CHR ''-'') (replaceRuns (\<lambda>c. \<not> isAlnum c) ''-'' nm)))))
   = filter isAlnum nm"
proof -
  have dash: "\<not> isAlnum (CHR ''-'')" by (simp add: isAlnum_def)
  have w: "filter isAlnum (dropWhile (\<lambda>c. c = CHR ''-'') xs) = filter isAlnum xs" for xs
    using filter_dropWhile_weaker [of "\<lambda>c. c = CHR ''-''" "\<lambda>c. \<not> isAlnum c" xs] dash by auto
  have k: "filter isAlnum (replaceRuns (\<lambda>c. \<not> isAlnum c) ''-'' nm) = filter isAlnum nm"
    using replaceRuns_keeps [of "''-''" "\<lambda>c. \<not> isAlnum c" nm] dash by simp
  have "filter isAlnum (rev (dropWhile (\<lambda>c. c = CHR ''-'') ys)) = filter isAlnum (rev ys)" for ys
    by (simp add: rev_filter [symmetric] w)
  then show ?thesis by (simp add: w k rev_filter [symmetric])
qed

lemma toMedicineFileName_with_alnum:
  assumes "\<exists>c\<in>set (name m). isAlnum c"
  shows "toMedicineFileName m = toMedicineFileName (m\<lparr>slug := s\<rparr>)"
proof -
  have "filter isAlnum (name m) \<noteq> []"
    using assms by (simp add: filter_empty_conv)
  then have "rev (dropWhile (\<lambda>c. c = CHR ''-'')
        (rev (dropWhile (\<lambda>c. c = CHR ''-'') (replaceRuns (\<lambda>c. \<not> isAlnum c) ''-'' (name m))))) \<noteq> []"
    using stripped_name_keeps_alnum [of "name m"] by force
  then show ?thesis by (simp add: toMedicineFileName_def Let_def)
qed

lemma toMedicineFileName_without_alnum:
  assumes "\<forall>c\<in>set (name m). \<not> isAlnum c"
  shows "toMedicineFileName m = slug m"
proof -
  have "set (replaceRuns (\<lambda>c. \<not> isAlnum c) ''-'' (name m)) \<subseteq> set ''-''"
    using assms by (intro replaceRuns_all) simp
  then have dw: "dropWhile (\<lambda>c. c = CHR ''-'') (replaceRuns (\<lambda>c. \<not> isAlnum c) ''-'' (name m)) = []"
    by auto
  show ?thesis unfolding toMedicineFileName_def Let_def dw by simp
qed

text \<open>
  C2, as the code has it. The artifact path is determined by the derived file name
  alone: two records get the same path exactly when their derived file names are equal.
  When the display name has an alphanumeric character the derived name does not depend
  on the slug; when it has none, the derived name is the record's slug, which is the
  slug of its task. So the paths of two tasks differ when their derived names differ, not
  whenever the tasks differ.
\<close>

theorem artifact_path_by_file_name:
  "(medicineArtifactPath outputStore m1 = medicineArtifactPath outputStore m2)
     = (toMedicineFileName m1 = toMedicineFileName m2)
   \<and> ((\<exists>c\<in>set (name m1). isAlnum c) \<longrightarrow> toMedicineFileName m1 = toMedicineFileName (m1\<lparr>slug := s\<rparr>))
   \<and> ((\<forall>c\<in>set (name m1). \<not> isAlnum c) \<longrightarrow> toMedicineFileName m1 = slug m1)
   \<and> slug (composeMedicine task landing pages related useful now) = task_slug task"
proof -
  have "(medicineArtifactPath outputStore m1 = medicineArtifactPath outputStore m2)
     = (toMedicineFileName m1 = toMedicineFileName m2)"
    by (simp add: medicineArtifactPath_def path_join_def)
  moreover have "slug (composeMedicine task landing pages related useful now) = task_slug task"
    by (simp add: composeMedicine_def)
  ultimately show ?thesis
    using toMedicineFileName_with_alnum [of m1 s] toMedicineFileName_without_alnum [of m1]
    by blast
qed

theorem artifact_path_by_file_name_witness:
  "medicineArtifactPath example_store (medicineOf (taskOf ''aspirin'') ''Aspirin'')
     \<noteq> medicineArtifactPath example_store (medicineOf (taskOf ''codeine'') ''Codeine'')
   \<and> toMedicineFileName (medicineOf (taskOf ''aspirin'') ''Aspirin'') = ''Aspirin''
   \<and> toMedicineFileName ((medicineOf (taskOf ''aspirin'') ''Aspirin'')\<lparr>slug := ''codeine''\<rparr>) = ''Aspirin''
   \<and> toMedicineFileName (medicineOf (taskOf ''aspirin'') ''(?)'') = ''aspirin''"
proof -
  have a: "toMedicineFileName (medicineOf (taskOf ''aspirin'') ''Aspirin'') = ''Aspirin''"
    by code_simp
  have c: "toMedicineFileName (medicineOf (taskOf ''codeine'') ''Codeine'') = ''Codeine''"
    by code_simp
  have h1: "\<exists>c\<in>set (name (medicineOf (taskOf ''aspirin'') ''Aspirin'')). isAlnum c"
    by (simp add: medicineOf_def composeMedicine_def isAlnum_def)
  have h2: "\<forall>c\<in>set (name (medicineOf (taskOf ''aspirin'') ''(?)'')). \<not> isAlnum c"
    by (simp add: medicineOf_def composeMedicine_def isAlnum_def)
  have s: "slug (medicineOf (taskOf ''aspirin'') ''(?)'') = ''aspirin''"
    by (simp add: medicineOf_def composeMedicine_def taskOf_def)
  show ?thesis
    using a c h1 h2 s
      artifact_path_by_file_name [of example_store "medicineOf (taskOf ''aspirin'') ''Aspirin''"
        "medicineOf (taskOf ''codeine'') ''Codeine''" "''codeine''"]
      artifact_path_by_file_name [of example_store "medicineOf (taskOf ''aspirin'') ''(?)''"
        "medicineOf (taskOf ''codeine'') ''Codeine''" "''codeine''"]
    by simp
qed

theorem artifact_path_collision_counterexample:
  "taskOf ''co-codamol-for-adults'' \<noteq> taskOf ''co-codamol-adults''
   \<and> task_slug (taskOf ''co-codamol-for-adults'') \<noteq> task_slug (taskOf ''co-codamol-adults'')
   \<and> medicineArtifactPath example_store
        (medicineOf (taskOf ''co-codamol-for-adults'') ''Co-codamol for adults'')
     = medicineArtifactPath example_store
        (medicineOf (taskOf ''co-codamol-adults'') ''Co codamol: for adults'')"
proof -
  have a: "toMedicineFileName (medicineOf (taskOf ''co-codamol-for-adults'') ''Co-codamol for adults'')
      = ''Co-codamol-for-adults''"
    by code_simp
  have b: "toMedicineFileName (medicineOf (taskOf ''co-codamol-adults'') ''Co codamol: for adults'')
      = ''Co-codamol-for-adults''"
    by code_simp
  show ?thesis
    using a b by (simp add: medicineArtifactPath_def taskOf_def)
qed


section \<open>The metadata index\<close>

lemma findIndex_None: "(findIndex p xs = None) = (\<forall>x\<in>set xs. \<not> p x)"
  by (induction xs) (auto split: option.splits)

lemma findIndex_Some:
  "findIndex p xs = Some i \<Longrightarrow> i < length xs \<and> p (xs ! i) \<and> (\<forall>j<i. \<not> p (xs ! j))"
proof (induction xs arbitrary: i)
  case Nil
  then show ?case by simp
next
  case (Cons x xs)
  show ?case
  proof (cases "p x")
    case True
    with Cons.prems show ?thesis by simp
  next
    case False
    with Cons.prems obtain k where k: "findIndex p xs = Some k" "i = Suc k"
      by (auto split: option.splits)
    from Cons.IH [OF k(1)] False k(2) show ?thesis
      by (auto simp: less_Suc_eq_0_disj)
  qed
qed

lemma filter_slug_update:
  assumes "distinct (map entry_slug xs)" and "i < length xs"
    and "entry_slug (xs ! i) = s" and "entry_slug e = s"
  shows "filter (\<lambda>x. entry_slug x = s) (xs[i := e]) = [e]"
  using assms
proof (induction xs arbitrary: i)
  case Nil
  then show ?case by simp
next
  case (Cons x xs)
  show ?case
  proof (cases i)
    case 0
    with Cons.prems have "entry_slug x = s" by simp
    with Cons.prems have "\<forall>y\<in>set xs. entry_slug y \<noteq> s" by (metis distinct.simps(2) image_eqI list.simps(9) set_map)
    then have "filter (\<lambda>x. entry_slug x = s) xs = []" by (simp add: filter_empty_conv)
    with 0 Cons.prems show ?thesis by simp
  next
    case (Suc k)
    with Cons.prems have k: "k < length xs" "entry_slug (xs ! k) = s" by simp_all
    then have "s \<in> set (map entry_slug xs)" by (metis length_map nth_map nth_mem)
    with Cons.prems have "entry_slug x \<noteq> s" by auto
    moreover have "filter (\<lambda>x. entry_slug x = s) (xs[k := e]) = [e]"
      using Cons.IH [of k] Cons.prems k by simp
    ultimately show ?thesis using Suc by simp
  qed
qed

lemma upsertMetadata_existing:
  assumes "findIndex (\<lambda>item. entry_slug item = s) items = Some i"
  shows "upsertMetadata items s n p
           = items[i := \<lparr> entry_slug = s, medicineName = n, medicineFilePath = p \<rparr>]"
  using assms by (simp add: upsertMetadata_def)

lemma upsertMetadata_new:
  assumes "s \<notin> set (map entry_slug items)"
  shows "upsertMetadata items s n p
           = items @ [\<lparr> entry_slug = s, medicineName = n, medicineFilePath = p \<rparr>]"
proof -
  have "findIndex (\<lambda>item. entry_slug item = s) items = None"
    using assms by (auto simp: findIndex_None)
  then show ?thesis by (simp add: upsertMetadata_def)
qed

lemma upsertMetadata_slugs:
  "map entry_slug (upsertMetadata items s n p)
     = (if s \<in> set (map entry_slug items) then map entry_slug items
        else map entry_slug items @ [s])"
proof (cases "findIndex (\<lambda>item. entry_slug item = s) items")
  case None
  then have "s \<notin> set (map entry_slug items)" by (auto simp: findIndex_None)
  then show ?thesis by (simp add: upsertMetadata_new)
next
  case (Some i)
  from findIndex_Some [OF Some] have i: "i < length items" "entry_slug (items ! i) = s" by simp_all
  then have "s \<in> set (map entry_slug items)" by (metis length_map nth_map nth_mem)
  moreover have "map entry_slug (items[i := \<lparr> entry_slug = s, medicineName = n, medicineFilePath = p \<rparr>])
      = map entry_slug items"
    using i by (simp add: map_update list_update_same_conv)
  ultimately show ?thesis by (simp add: upsertMetadata_existing [OF Some])
qed

lemma upsertMetadata_one:
  assumes "distinct (map entry_slug items)"
  shows "filter (\<lambda>e. entry_slug e = s) (upsertMetadata items s n p)
           = [\<lparr> entry_slug = s, medicineName = n, medicineFilePath = p \<rparr>]"
proof (cases "findIndex (\<lambda>item. entry_slug item = s) items")
  case None
  then have "\<forall>x\<in>set items. entry_slug x \<noteq> s" by (simp add: findIndex_None)
  then have "filter (\<lambda>e. entry_slug e = s) items = []" by (simp add: filter_empty_conv)
  moreover from None have "s \<notin> set (map entry_slug items)" by (auto simp: findIndex_None)
  ultimately show ?thesis by (simp add: upsertMetadata_new)
next
  case (Some i)
  from findIndex_Some [OF Some] have i: "i < length items" "entry_slug (items ! i) = s" by simp_all
  show ?thesis
    unfolding upsertMetadata_existing [OF Some]
    by (rule filter_slug_update [OF assms i]) simp
qed

lemma upsertMetadata_distinct:
  "distinct (map entry_slug items) \<Longrightarrow> distinct (map entry_slug (upsertMetadata items s n p))"
  by (simp add: upsertMetadata_slugs)

lemma upsertMetadata_others:
  assumes "i < length items" and "entry_slug (items ! i) \<noteq> s"
  shows "upsertMetadata items s n p ! i = items ! i"
proof (cases "findIndex (\<lambda>item. entry_slug item = s) items")
  case None
  with assms show ?thesis by (simp add: upsertMetadata_def nth_append)
next
  case (Some k)
  from findIndex_Some [OF Some] assms have "k \<noteq> i" by auto
  then show ?thesis by (simp add: upsertMetadata_existing [OF Some])
qed

lemma upsert_sequence:
  assumes "distinct (map entry_slug items)" and "ms \<noteq> []"
  shows "filter (\<lambda>e. entry_slug e = s)
           (foldl (\<lambda>acc m. upsertMetadata acc s (name m) (rel m)) items ms)
         = [\<lparr> entry_slug = s, medicineName = name (last ms), medicineFilePath = rel (last ms) \<rparr>]
         \<and> distinct (map entry_slug (foldl (\<lambda>acc m. upsertMetadata acc s (name m) (rel m)) items ms))"
  using assms
proof (induction ms arbitrary: items rule: rev_induct)
  case Nil
  then show ?case by simp
next
  case (snoc m ms)
  have d: "distinct (map entry_slug (foldl (\<lambda>acc m. upsertMetadata acc s (name m) (rel m)) items ms))"
  proof (cases "ms = []")
    case True
    with snoc.prems show ?thesis by simp
  next
    case False
    with snoc.IH [OF snoc.prems(1)] show ?thesis by simp
  qed
  show ?case
    using upsertMetadata_one [OF d] upsertMetadata_distinct [OF d] by simp
qed


lemma relative_artifact_path:
  "path_relative (outputDir (prepareOutputStore env fs dir))
     (medicineArtifactPath (prepareOutputStore env fs dir) m)
   = ''medicines/'' @ toMedicineFileName m @ ''.json''"
  by (simp add: prepareOutputStore_def Let_def medicineArtifactPath_def path_join_def
      path_relative_def)

lemma persistMedicine_metadata:
  assumes "\<not> writeFails env (medicineArtifactPath outputStore m)"
  shows "metadata (fst (snd (persistMedicine env task m (outputStore, fs))))
     = upsertMetadata (metadata outputStore) (task_slug task) (name m)
         (path_relative (outputDir outputStore) (medicineArtifactPath outputStore m))"
  using assms by (simp add: persistMedicine_def writeFile_def Let_def)

lemma loadMetadata_written:
  assumes "fs mpath = Some (MetadataFile items)" and "\<forall>e\<in>set items. entry_slug e \<noteq> []"
  shows "loadMetadata fs mpath = items"
proof -
  have "map (\<lambda>item. item\<lparr>entry_slug :=
                 (if entry_slug item \<noteq> [] then entry_slug item
                  else path_basename (medicineFilePath item) ''.json'')\<rparr>) items = map (\<lambda>item. item) items"
    using assms(2) by (intro map_cong) auto
  then show ?thesis using assms(1) by (simp add: loadMetadata_def)
qed

text \<open>
  C5, as the code has it. In an index whose slugs are unique (the empty index is one, and
  every upsert keeps it so), after an upsert for a slug the index has exactly one entry for that slug, the
  one just written. When the slug was present the index keeps its length and the order
  of its slugs, and every other entry stays where it was; when it was absent the entry
  is appended. After any non-empty sequence of upserts for one slug the single entry for
  that slug is the one of the last record. \<open>persistMedicine\<close>, once the artifact is
  written, upserts the task's slug with the record's name and the relative path of the
  file derived from the record, which is \<open>medicines/<file name>.json\<close>. The index
  \<open>loadMetadata\<close> starts from is empty when there is no index file, and is the index
  as written when the file holds entries with non-empty slugs. \<open>loadMetadata\<close> does
  not check that slugs are unique: an index loaded with a repeated slug keeps the repeat,
  as an upsert replaces the first entry for the slug only.
\<close>

theorem upsert_invariant:
  assumes "distinct (map entry_slug items)"
  shows "filter (\<lambda>e. entry_slug e = s) (upsertMetadata items s n p)
           = [\<lparr> entry_slug = s, medicineName = n, medicineFilePath = p \<rparr>]
   \<and> distinct (map entry_slug (upsertMetadata items s n p))
   \<and> (s \<in> set (map entry_slug items) \<longrightarrow>
        length (upsertMetadata items s n p) = length items
        \<and> map entry_slug (upsertMetadata items s n p) = map entry_slug items
        \<and> (\<forall>i<length items. entry_slug (items ! i) \<noteq> s \<longrightarrow> upsertMetadata items s n p ! i = items ! i))
   \<and> (s \<notin> set (map entry_slug items) \<longrightarrow>
        upsertMetadata items s n p
          = items @ [\<lparr> entry_slug = s, medicineName = n, medicineFilePath = p \<rparr>])
   \<and> (ms \<noteq> [] \<longrightarrow>
        filter (\<lambda>e. entry_slug e = s)
          (foldl (\<lambda>acc m. upsertMetadata acc s (name m) (rel m)) items ms)
        = [\<lparr> entry_slug = s, medicineName = name (last ms), medicineFilePath = rel (last ms) \<rparr>])
   \<and> (\<not> writeFails env (medicineArtifactPath outputStore m) \<longrightarrow>
        metadata (fst (snd (persistMedicine env task m (outputStore, fs))))
          = upsertMetadata (metadata outputStore) (task_slug task) (name m)
              (path_relative (outputDir outputStore) (medicineArtifactPath outputStore m)))
   \<and> path_relative (outputDir (prepareOutputStore env fs dir))
        (medicineArtifactPath (prepareOutputStore env fs dir) m)
      = ''medicines/'' @ toMedicineFileName m @ ''.json''
   \<and> (fs mpath = None \<longrightarrow> loadMetadata fs mpath = [])
   \<and> (fs mpath = Some (MetadataFile items) \<and> (\<forall>e\<in>set items. entry_slug e \<noteq> [])
        \<longrightarrow> loadMetadata fs mpath = items)"
proof -
  have none: "loadMetadata fs mpath = []" if "fs mpath = None"
    using that by (simp add: loadMetadata_def)
  have len: "length (upsertMetadata items s n p) = length items"
    if "s \<in> set (map entry_slug items)"
  proof -
    have "length (map entry_slug (upsertMetadata items s n p)) = length (map entry_slug items)"
      using that by (simp only: upsertMetadata_slugs if_True)
    then show ?thesis by simp
  qed
  have slugs: "map entry_slug (upsertMetadata items s n p) = map entry_slug items"
    if "s \<in> set (map entry_slug items)"
    using that by (simp only: upsertMetadata_slugs if_True)
  show ?thesis
    using upsertMetadata_one [OF assms, of s n p] upsertMetadata_distinct [OF assms, of s n p]
      len slugs upsertMetadata_others [of _ items s n p] upsertMetadata_new [of s items n p]
      upsert_sequence [OF assms, of ms s rel] persistMedicine_metadata [of env outputStore m task fs]
      relative_artifact_path [of env fs dir m] none loadMetadata_written [of fs mpath items]
    by blast
qed

theorem upsert_invariant_witness:
  "filter (\<lambda>e. entry_slug e = ''aspirin'')
     (upsertMetadata
        [\<lparr> entry_slug = ''aciclovir'', medicineName = ''Aciclovir'', medicineFilePath = ''medicines/Aciclovir.json'' \<rparr>,
         \<lparr> entry_slug = ''aspirin'', medicineName = ''Aspirin'', medicineFilePath = ''medicines/Aspirin.json'' \<rparr>,
         \<lparr> entry_slug = ''codeine'', medicineName = ''Codeine'', medicineFilePath = ''medicines/Codeine.json'' \<rparr>]
        ''aspirin'' ''Aspirin for pain relief'' ''medicines/Aspirin-for-pain-relief.json'')
   = [\<lparr> entry_slug = ''aspirin'', medicineName = ''Aspirin for pain relief'',
        medicineFilePath = ''medicines/Aspirin-for-pain-relief.json'' \<rparr>]
   \<and> map entry_slug
     (upsertMetadata
        [\<lparr> entry_slug = ''aciclovir'', medicineName = ''Aciclovir'', medicineFilePath = ''medicines/Aciclovir.json'' \<rparr>,
         \<lparr> entry_slug = ''aspirin'', medicineName = ''Aspirin'', medicineFilePath = ''medicines/Aspirin.json'' \<rparr>,
         \<lparr> entry_slug = ''codeine'', medicineName = ''Codeine'', medicineFilePath = ''medicines/Codeine.json'' \<rparr>]
        ''aspirin'' ''Aspirin for pain relief'' ''medicines/Aspirin-for-pain-relief.json'')
   = [''aciclovir'', ''aspirin'', ''codeine'']
   \<and> filter (\<lambda>e. entry_slug e = ''aspirin'')
      (foldl (\<lambda>acc m. upsertMetadata acc ''aspirin'' (name m) (''medicines/'' @ toMedicineFileName m @ ''.json''))
         [\<lparr> entry_slug = ''aciclovir'', medicineName = ''Aciclovir'', medicineFilePath = ''medicines/Aciclovir.json'' \<rparr>,
          \<lparr> entry_slug = ''aspirin'', medicineName = ''Aspirin'', medicineFilePath = ''medicines/Aspirin.json'' \<rparr>,
          \<lparr> entry_slug = ''codeine'', medicineName = ''Codeine'', medicineFilePath = ''medicines/Codeine.json'' \<rparr>]
         [medicineOf (taskOf ''aspirin'') ''Aspirin'', medicineOf (taskOf ''aspirin'') ''Low-dose aspirin''])
   = [\<lparr> entry_slug = ''aspirin'', medicineName = ''Low-dose aspirin'',
        medicineFilePath = ''medicines/Low-dose-aspirin.json'' \<rparr>]"
proof -
  let ?items = "[\<lparr> entry_slug = ''aciclovir'', medicineName = ''Aciclovir'', medicineFilePath = ''medicines/Aciclovir.json'' \<rparr>,
         \<lparr> entry_slug = ''aspirin'', medicineName = ''Aspirin'', medicineFilePath = ''medicines/Aspirin.json'' \<rparr>,
         \<lparr> entry_slug = ''codeine'', medicineName = ''Codeine'', medicineFilePath = ''medicines/Codeine.json'' \<rparr>]"
  let ?ms = "[medicineOf (taskOf ''aspirin'') ''Aspirin'', medicineOf (taskOf ''aspirin'') ''Low-dose aspirin'']"
  have d: "distinct (map entry_slug ?items)" by simp
  have ne: "?ms \<noteq> []" by simp
  have mem: "''aspirin'' \<in> set (map entry_slug ?items)" by simp
  have nm: "name (last ?ms) = ''Low-dose aspirin''"
    by (simp add: medicineOf_def composeMedicine_def)
  have fn: "toMedicineFileName (last ?ms) = ''Low-dose-aspirin''"
    by code_simp
  show ?thesis
    using mem ne nm fn
      upsert_invariant [OF d, of "''aspirin''" "''Aspirin for pain relief''"
        "''medicines/Aspirin-for-pain-relief.json''" ?ms
        "\<lambda>m. ''medicines/'' @ toMedicineFileName m @ ''.json''"]
    by simp
qed


theorem upsert_repeated_slug_counterexample:
  "distinct (map entry_slug
      [\<lparr> entry_slug = '''', medicineName = ''Aspirin'', medicineFilePath = ''medicines/aspirin.json'' \<rparr>,
       \<lparr> entry_slug = ''aspirin'', medicineName = ''Aspirin (old)'',
          medicineFilePath = ''medicines/Aspirin-old.json'' \<rparr>])
   \<and> map entry_slug (loadMetadata
      [''/app/data/metadata.json'' \<mapsto> MetadataFile
        [\<lparr> entry_slug = '''', medicineName = ''Aspirin'', medicineFilePath = ''medicines/aspirin.json'' \<rparr>,
         \<lparr> entry_slug = ''aspirin'', medicineName = ''Aspirin (old)'',
            medicineFilePath = ''medicines/Aspirin-old.json'' \<rparr>]]
      ''/app/data/metadata.json'') = [''aspirin'', ''aspirin'']
   \<and> filter (\<lambda>e. entry_slug e = ''aspirin'')
      (metadata (fst (snd (persistMedicine example_env (taskOf ''aspirin'')
         (medicineOf (taskOf ''aspirin'') ''Aspirin'')
         (prepareOutputStore example_env
            [''/app/data/metadata.json'' \<mapsto> MetadataFile
              [\<lparr> entry_slug = '''', medicineName = ''Aspirin'', medicineFilePath = ''medicines/aspirin.json'' \<rparr>,
               \<lparr> entry_slug = ''aspirin'', medicineName = ''Aspirin (old)'',
                  medicineFilePath = ''medicines/Aspirin-old.json'' \<rparr>]]
            ''data'',
          [''/app/data/metadata.json'' \<mapsto> MetadataFile
              [\<lparr> entry_slug = '''', medicineName = ''Aspirin'', medicineFilePath = ''medicines/aspirin.json'' \<rparr>,
               \<lparr> entry_slug = ''aspirin'', medicineName = ''Aspirin (old)'',
                  medicineFilePath = ''medicines/Aspirin-old.json'' \<rparr>]])))))
     = [\<lparr> entry_slug = ''aspirin'', medicineName = ''Aspirin'', medicineFilePath = ''medicines/Aspirin.json'' \<rparr>,
        \<lparr> entry_slug = ''aspirin'', medicineName = ''Aspirin (old)'',
           medicineFilePath = ''medicines/Aspirin-old.json'' \<rparr>]"
  by code_simp


section \<open>Cache policy\<close>

lemma getCachedSlugs_loop_eq:
  "getCachedSlugs_loop fs dir items acc
     = acc \<union> {entry_slug e | e. e \<in> set items \<and> access fs (path_resolve dir (medicineFilePath e))}"
  by (induction items arbitrary: acc) auto

lemma getCachedSlugs_iff:
  "(s \<in> getCachedSlugs fs dir items)
     = (\<exists>e\<in>set items. entry_slug e = s \<and> access fs (path_resolve dir (medicineFilePath e)))"
  by (auto simp: getCachedSlugs_def getCachedSlugs_loop_eq)

lemma filterCached_eq:
  "filterCached cachedSlugs tasks k
     = (filter (\<lambda>t. task_slug t \<notin> cachedSlugs) tasks,
        k + length (filter (\<lambda>t. task_slug t \<in> cachedSlugs) tasks))"
  by (induction tasks arbitrary: k) (auto simp: Let_def)

lemma getCachedSlugs_dom:
  "dom fs = dom fs' \<Longrightarrow> getCachedSlugs fs dir items = getCachedSlugs fs' dir items"
proof -
  assume "dom fs = dom fs'"
  then have "access fs p = access fs' p" for p
    by (auto simp: access_def dom_def)
  then show ?thesis
    by (simp add: getCachedSlugs_def getCachedSlugs_loop_eq)
qed

text \<open>
  C6. With \<open>hardRefresh\<close> every task is returned and nothing is skipped. Without it the
  tasks returned are, in order, those whose slug has no metadata entry whose file can be
  accessed under the output directory; the others are dropped and \<open>skipped\<close> is their
  number. The decision looks at which paths exist only: two disks with the same paths
  give the same result, whatever the files hold.
\<close>

theorem applyCachePolicy_cache:
  "applyCachePolicy fs tasks outputStore True = (tasks, 0)
   \<and> applyCachePolicy fs tasks outputStore False
       = (filter (\<lambda>t. \<not> (\<exists>e\<in>set (metadata outputStore). entry_slug e = task_slug t
                          \<and> access fs (path_resolve (outputDir outputStore) (medicineFilePath e)))) tasks,
          length (filter (\<lambda>t. \<exists>e\<in>set (metadata outputStore). entry_slug e = task_slug t
                          \<and> access fs (path_resolve (outputDir outputStore) (medicineFilePath e))) tasks))
   \<and> length (fst (applyCachePolicy fs tasks outputStore h)) + snd (applyCachePolicy fs tasks outputStore h)
       = length tasks
   \<and> (dom fs = dom fs' \<longrightarrow>
        applyCachePolicy fs tasks outputStore h = applyCachePolicy fs' tasks outputStore h)"
proof -
  have hard: "applyCachePolicy fs tasks outputStore True = (tasks, 0)"
    by (simp add: applyCachePolicy_def)
  have soft: "applyCachePolicy fs tasks outputStore False
       = (filter (\<lambda>t. \<not> (\<exists>e\<in>set (metadata outputStore). entry_slug e = task_slug t
                          \<and> access fs (path_resolve (outputDir outputStore) (medicineFilePath e)))) tasks,
          length (filter (\<lambda>t. \<exists>e\<in>set (metadata outputStore). entry_slug e = task_slug t
                          \<and> access fs (path_resolve (outputDir outputStore) (medicineFilePath e))) tasks))"
    by (simp add: applyCachePolicy_def filterCached_eq getCachedSlugs_iff)
  have total: "length (fst (applyCachePolicy fs tasks outputStore h))
       + snd (applyCachePolicy fs tasks outputStore h) = length tasks"
  proof (cases h)
    case True
    then show ?thesis by (simp add: applyCachePolicy_def)
  next
    case False
    then show ?thesis
      using sum_length_filter_compl [of "\<lambda>t. task_slug t \<in> getCachedSlugs fs (outputDir outputStore) (metadata outputStore)" tasks]
      by (simp add: applyCachePolicy_def filterCached_eq)
  qed
  have same: "applyCachePolicy fs tasks outputStore h = applyCachePolicy fs' tasks outputStore h"
    if "dom fs = dom fs'"
    using getCachedSlugs_dom [OF that] by (simp add: applyCachePolicy_def)
  show ?thesis using hard soft total same by blast
qed

theorem applyCachePolicy_cache_witness:
  "applyCachePolicy
     [''/app/data/medicines/Aspirin.json'' \<mapsto> OtherFile ''stale'']
     [taskOf ''aciclovir'', taskOf ''aspirin'', taskOf ''codeine'']
     (example_store\<lparr>metadata :=
        [\<lparr> entry_slug = ''aspirin'', medicineName = ''Aspirin'', medicineFilePath = ''medicines/Aspirin.json'' \<rparr>,
         \<lparr> entry_slug = ''codeine'', medicineName = ''Codeine'', medicineFilePath = ''medicines/Codeine.json'' \<rparr>]\<rparr>)
     False
   = ([taskOf ''aciclovir'', taskOf ''codeine''], 1)
   \<and> applyCachePolicy
     [''/app/data/medicines/Aspirin.json'' \<mapsto> OtherFile ''stale'']
     [taskOf ''aciclovir'', taskOf ''aspirin'', taskOf ''codeine'']
     (example_store\<lparr>metadata :=
        [\<lparr> entry_slug = ''aspirin'', medicineName = ''Aspirin'', medicineFilePath = ''medicines/Aspirin.json'' \<rparr>,
         \<lparr> entry_slug = ''codeine'', medicineName = ''Codeine'', medicineFilePath = ''medicines/Codeine.json'' \<rparr>]\<rparr>)
     False
   = applyCachePolicy
     [''/app/data/medicines/Aspirin.json'' \<mapsto> MedicineFile (medicineOf (taskOf ''aspirin'') ''Aspirin'')]
     [taskOf ''aciclovir'', taskOf ''aspirin'', taskOf ''codeine'']
     (example_store\<lparr>metadata :=
        [\<lparr> entry_slug = ''aspirin'', medicineName = ''Aspirin'', medicineFilePath = ''medicines/Aspirin.json'' \<rparr>,
         \<lparr> entry_slug = ''codeine'', medicineName = ''Codeine'', medicineFilePath = ''medicines/Codeine.json'' \<rparr>]\<rparr>)
     False"
proof -
  let ?fs = "[''/app/data/medicines/Aspirin.json'' \<mapsto> OtherFile ''stale'']"
  let ?fs' = "[''/app/data/medicines/Aspirin.json'' \<mapsto> MedicineFile (medicineOf (taskOf ''aspirin'') ''Aspirin'')]"
  let ?tasks = "[taskOf ''aciclovir'', taskOf ''aspirin'', taskOf ''codeine'']"
  let ?store = "example_store\<lparr>metadata :=
        [\<lparr> entry_slug = ''aspirin'', medicineName = ''Aspirin'', medicineFilePath = ''medicines/Aspirin.json'' \<rparr>,
         \<lparr> entry_slug = ''codeine'', medicineName = ''Codeine'', medicineFilePath = ''medicines/Codeine.json'' \<rparr>]\<rparr>"
  have d: "dom ?fs = dom ?fs'" by simp
  have v: "(filter (\<lambda>t. \<not> (\<exists>e\<in>set (metadata ?store). entry_slug e = task_slug t
                          \<and> access ?fs (path_resolve (outputDir ?store) (medicineFilePath e)))) ?tasks,
          length (filter (\<lambda>t. \<exists>e\<in>set (metadata ?store). entry_slug e = task_slug t
                          \<and> access ?fs (path_resolve (outputDir ?store) (medicineFilePath e))) ?tasks))
        = ([taskOf ''aciclovir'', taskOf ''codeine''], 1)"
    by (simp add: example_store_def taskOf_def access_def path_resolve_def)
  note t = applyCachePolicy_cache [of ?fs ?tasks ?store False ?fs']
  from t have a: "applyCachePolicy ?fs ?tasks ?store False
       = (filter (\<lambda>t. \<not> (\<exists>e\<in>set (metadata ?store). entry_slug e = task_slug t
                          \<and> access ?fs (path_resolve (outputDir ?store) (medicineFilePath e)))) ?tasks,
          length (filter (\<lambda>t. \<exists>e\<in>set (metadata ?store). entry_slug e = task_slug t
                          \<and> access ?fs (path_resolve (outputDir ?store) (medicineFilePath e))) ?tasks))"
    by blast
  have r1: "applyCachePolicy ?fs ?tasks ?store False = ([taskOf ''aciclovir'', taskOf ''codeine''], 1)"
    by (rule trans [OF a v])
  from t d have r2: "applyCachePolicy ?fs ?tasks ?store False = applyCachePolicy ?fs' ?tasks ?store False"
    by blast
  show ?thesis using r1 r2 by (rule conjI)
qed


section \<open>Retries\<close>

lemma pRetry_from_always_fails:
  assumes "\<forall>k. \<exists>err. input k = Inl err"
  shows "1 \<le> attempts (pRetry_from input d a r)
    \<and> attempts (pRetry_from input d a r) \<le> Suc r
    \<and> delays (pRetry_from input d a r) = replicate (attempts (pRetry_from input d a r) - 1) d
    \<and> outcome (pRetry_from input d a r) = input (a + (attempts (pRetry_from input d a r) - 1))
    \<and> (attempts (pRetry_from input d a r) < Suc r \<longrightarrow>
         (\<exists>err. input (a + (attempts (pRetry_from input d a r) - 1)) = Inl err \<and> \<not> retryable err))
    \<and> (\<forall>j. j < attempts (pRetry_from input d a r) - 1 \<longrightarrow>
           (\<exists>err. input (a + j) = Inl err \<and> retryable err))"
proof (induction r arbitrary: a)
  case 0
  show ?case by simp
next
  case (Suc r)
  from assms obtain err where err: "input a = Inl err" by blast
  show ?case
  proof (cases "retryable err")
    case False
    with err show ?thesis by simp
  next
    case True
    let ?n = "attempts (pRetry_from input d (Suc a) r)"
    note ih = Suc [of "Suc a"]
    have n: "attempts (pRetry_from input d a (Suc r)) = Suc ?n"
      and dl: "delays (pRetry_from input d a (Suc r)) = d # delays (pRetry_from input d (Suc a) r)"
      and oc: "outcome (pRetry_from input d a (Suc r)) = outcome (pRetry_from input d (Suc a) r)"
      using err True by (simp_all add: Let_def)
    from ih have pos: "1 \<le> ?n" by simp
    then have shift: "a + (Suc ?n - 1) = Suc a + (?n - 1)" by simp
    have before: "\<exists>e. input (a + j) = Inl e \<and> retryable e" if "j < Suc ?n - 1" for j
    proof (cases j)
      case 0
      with err True show ?thesis by simp
    next
      case (Suc i)
      with that have "i < ?n - 1" by simp
      with ih have "\<exists>e. input (Suc a + i) = Inl e \<and> retryable e" by blast
      with Suc show ?thesis by simp
    qed
    have d1: "d # replicate (?n - 1) d = replicate (Suc ?n - 1) d"
      using pos by (cases ?n) simp_all
    show ?thesis
      unfolding n dl oc shift
      using ih pos before d1 by auto
  qed
qed

lemma retryScrapeMedicine_always_fails:
  assumes "\<forall>k. \<exists>err. scrapeMedicine env task k = Inl err"
    and "0 \<le> retryDelayMs appConfig"
  shows "1 \<le> attempts (retryScrapeMedicine appConfig env task)
    \<and> attempts (retryScrapeMedicine appConfig env task) \<le> nat (max 1 (retryAttempts appConfig))
    \<and> delays (retryScrapeMedicine appConfig env task)
        = replicate (attempts (retryScrapeMedicine appConfig env task) - 1) (retryDelayMs appConfig)
    \<and> outcome (retryScrapeMedicine appConfig env task)
        = scrapeMedicine env task (attempts (retryScrapeMedicine appConfig env task))
    \<and> (attempts (retryScrapeMedicine appConfig env task) < nat (max 1 (retryAttempts appConfig)) \<longrightarrow>
         (\<exists>err. scrapeMedicine env task (attempts (retryScrapeMedicine appConfig env task)) = Inl err
                \<and> \<not> retryable err))
    \<and> (\<forall>k. 1 \<le> k \<and> k < attempts (retryScrapeMedicine appConfig env task) \<longrightarrow>
           (\<exists>err. scrapeMedicine env task k = Inl err \<and> retryable err))"
proof -
  let ?r = "nat (max 0 (retryAttempts appConfig - 1))"
  have r: "Suc ?r = nat (max 1 (retryAttempts appConfig))" by auto
  have run: "retryScrapeMedicine appConfig env task
      = pRetry_from (\<lambda>attempt. scrapeMedicine env task attempt) (retryDelayMs appConfig) 1 ?r"
    using assms(2) by (simp add: retryScrapeMedicine_def pRetry_def)
  note p = pRetry_from_always_fails [OF assms(1), of "retryDelayMs appConfig" 1 ?r,
      folded run, unfolded r]
  let ?n = "attempts (retryScrapeMedicine appConfig env task)"
  from p have pos: "1 \<le> ?n" by simp
  then have idx: "1 + (?n - 1) = ?n" by simp
  have before: "\<exists>err. scrapeMedicine env task k = Inl err \<and> retryable err"
    if "1 \<le> k" "k < ?n" for k
  proof -
    from that have "k - 1 < ?n - 1" by simp
    with p have "\<exists>err. scrapeMedicine env task (1 + (k - 1)) = Inl err \<and> retryable err" by blast
    with that(1) show ?thesis by simp
  qed
  show ?thesis using p before unfolding idx by blast
qed

lemma retryScrapeMedicine_fails:
  assumes "\<forall>k. \<exists>err. scrapeMedicine env task k = Inl err"
  shows "\<exists>err. outcome (retryScrapeMedicine appConfig env task) = Inl err"
proof (cases "0 \<le> retryDelayMs appConfig")
  case True
  from retryScrapeMedicine_always_fails [OF assms True]
  have "outcome (retryScrapeMedicine appConfig env task)
        = scrapeMedicine env task (attempts (retryScrapeMedicine appConfig env task))"
    by simp
  with assms show ?thesis by metis
next
  case False
  then show ?thesis by (simp add: retryScrapeMedicine_def pRetry_def)
qed

text \<open>
  C3, as the code has it. Take a task whose extraction fails at every attempt. With a
  delay that is not negative it is attempted at least once and at most
  \<open>max 1 retryAttempts\<close> times, the wait before every retry is \<open>retryDelayMs\<close>, and the
  error of the last attempt is the outcome. The attempts stop short of
  \<open>max 1 retryAttempts\<close> only at a failure the retry package does not retry, a
  \<open>TypeError\<close> that is not a network failure; when no failure is of that kind the
  task is attempted exactly \<open>max 1 retryAttempts\<close> times, that is \<open>retryAttempts\<close>
  times when that is at least 1 and once when it is 0 or less; when the first failure is
  of that kind the task is attempted once. With a negative delay
  the retry package refuses its options and no attempt is made. In every case the task
  is counted as failed and as completed, not as succeeded, and the store and the disk
  are as they were.
\<close>

theorem retry_budget_exhaustion:
  assumes "\<forall>k. \<exists>err. scrapeMedicine env task k = Inl err"
  shows "(0 \<le> retryDelayMs appConfig \<longrightarrow>
          1 \<le> attempts (retryScrapeMedicine appConfig env task)
          \<and> attempts (retryScrapeMedicine appConfig env task) \<le> nat (max 1 (retryAttempts appConfig))
          \<and> delays (retryScrapeMedicine appConfig env task)
              = replicate (attempts (retryScrapeMedicine appConfig env task) - 1) (retryDelayMs appConfig)
          \<and> outcome (retryScrapeMedicine appConfig env task)
              = scrapeMedicine env task (attempts (retryScrapeMedicine appConfig env task))
          \<and> (attempts (retryScrapeMedicine appConfig env task) < nat (max 1 (retryAttempts appConfig)) \<longrightarrow>
               (\<exists>err. scrapeMedicine env task (attempts (retryScrapeMedicine appConfig env task)) = Inl err
                      \<and> \<not> retryable err))
          \<and> (\<forall>k. 1 \<le> k \<and> k < attempts (retryScrapeMedicine appConfig env task) \<longrightarrow>
                 (\<exists>err. scrapeMedicine env task k = Inl err \<and> retryable err)))
   \<and> (0 \<le> retryDelayMs appConfig
        \<and> (\<forall>k err. scrapeMedicine env task k = Inl err \<longrightarrow> retryable err) \<longrightarrow>
          attempts (retryScrapeMedicine appConfig env task) = nat (max 1 (retryAttempts appConfig))
          \<and> delays (retryScrapeMedicine appConfig env task)
              = replicate (nat (max 1 (retryAttempts appConfig)) - 1) (retryDelayMs appConfig)
          \<and> outcome (retryScrapeMedicine appConfig env task)
              = scrapeMedicine env task (nat (max 1 (retryAttempts appConfig))))
   \<and> (0 \<le> retryDelayMs appConfig
        \<and> (\<exists>err. scrapeMedicine env task 1 = Inl err \<and> \<not> retryable err) \<longrightarrow>
          attempts (retryScrapeMedicine appConfig env task) = 1
          \<and> delays (retryScrapeMedicine appConfig env task) = [])
   \<and> (retryDelayMs appConfig < 0 \<longrightarrow>
          attempts (retryScrapeMedicine appConfig env task) = 0
          \<and> delays (retryScrapeMedicine appConfig env task) = [])
   \<and> processMedicineTask appConfig env task (outputStore, fs, state)
       = (outputStore, fs,
          state\<lparr> failed := failed state + 1, completed := completed state + 1 \<rparr>)"
proof -
  let ?n = "attempts (retryScrapeMedicine appConfig env task)"
  let ?m = "nat (max 1 (retryAttempts appConfig))"
  have first: "?n = 1 \<and> delays (retryScrapeMedicine appConfig env task) = []"
    if d: "0 \<le> retryDelayMs appConfig"
      and bad: "\<exists>err. scrapeMedicine env task 1 = Inl err \<and> \<not> retryable err"
  proof -
    note g = retryScrapeMedicine_always_fails [OF assms d]
    have "\<not> 1 < ?n"
    proof
      assume "1 < ?n"
      with g obtain err where "scrapeMedicine env task 1 = Inl err" "retryable err" by blast
      with bad show False by auto
    qed
    with g have "?n = 1" by simp
    with g show ?thesis by simp
  qed
  have exact: "?n = ?m \<and> delays (retryScrapeMedicine appConfig env task)
              = replicate (?m - 1) (retryDelayMs appConfig)
          \<and> outcome (retryScrapeMedicine appConfig env task) = scrapeMedicine env task ?m"
    if d: "0 \<le> retryDelayMs appConfig"
      and ok: "\<forall>k err. scrapeMedicine env task k = Inl err \<longrightarrow> retryable err"
  proof -
    note g = retryScrapeMedicine_always_fails [OF assms d]
    have "\<not> ?n < ?m"
    proof
      assume "?n < ?m"
      with g obtain err where "scrapeMedicine env task ?n = Inl err" "\<not> retryable err" by blast
      with ok show False by blast
    qed
    with g have "?n = ?m" by simp
    with g show ?thesis by simp
  qed
  have neg: "?n = 0 \<and> delays (retryScrapeMedicine appConfig env task) = []"
    if "retryDelayMs appConfig < 0"
    using that by (simp add: retryScrapeMedicine_def pRetry_def)
  from retryScrapeMedicine_fails [OF assms, of appConfig] obtain err where
    "outcome (retryScrapeMedicine appConfig env task) = Inl err" by blast
  then have counted: "processMedicineTask appConfig env task (outputStore, fs, state)
       = (outputStore, fs,
          state\<lparr> failed := failed state + 1, completed := completed state + 1 \<rparr>)"
    by (simp add: processMedicineTask_def)
  show ?thesis
    using retryScrapeMedicine_always_fails [OF assms, of appConfig] exact first neg counted
    by blast
qed

theorem retry_budget_exhaustion_witness:
  "attempts (retryScrapeMedicine example_config example_env (taskOf ''unreachable'')) = 3
   \<and> delays (retryScrapeMedicine example_config example_env (taskOf ''unreachable'')) = [750, 750]
   \<and> attempts (retryScrapeMedicine example_config example_env (taskOf ''malformed-link'')) = 1
   \<and> processMedicineTask example_config example_env (taskOf ''unreachable'')
        (example_store, Map.empty, \<lparr> succeeded = 0, completed = 0, failed = 0 \<rparr>)
      = (example_store, Map.empty, \<lparr> succeeded = 0, completed = 1, failed = 1 \<rparr>)
   \<and> processMedicineTask example_config example_env (taskOf ''malformed-link'')
        (example_store, Map.empty, \<lparr> succeeded = 0, completed = 0, failed = 0 \<rparr>)
      = (example_store, Map.empty, \<lparr> succeeded = 0, completed = 1, failed = 1 \<rparr>)"
proof -
  have h: "\<forall>k. \<exists>err. scrapeMedicine example_env (taskOf ''unreachable'') k = Inl err"
    by (simp add: scrapeMedicine_def example_env_def taskOf_def)
  have ok: "\<forall>k err. scrapeMedicine example_env (taskOf ''unreachable'') k = Inl err \<longrightarrow> retryable err"
    by (simp add: scrapeMedicine_def example_env_def taskOf_def retryable_def)
  have h': "\<forall>k. \<exists>err. scrapeMedicine example_env (taskOf ''malformed-link'') k = Inl err"
    by (simp add: scrapeMedicine_def example_env_def taskOf_def)
  have bad: "\<exists>err. scrapeMedicine example_env (taskOf ''malformed-link'') 1 = Inl err \<and> \<not> retryable err"
    by (simp add: scrapeMedicine_def example_env_def taskOf_def retryable_def)
  have three: "nat (max 1 (retryAttempts example_config)) = 3"
    by (simp add: example_config_def)
  have d: "retryDelayMs example_config = 750"
    by (simp add: example_config_def)
  have two: "replicate (3 - 1) (750::int) = [750, 750]"
    by (simp add: numeral_2_eq_2 numeral_3_eq_3)
  have pos: "(0::int) \<le> 750" by simp
  note a = retry_budget_exhaustion [OF h, of example_config example_store Map.empty
        "\<lparr> succeeded = 0, completed = 0, failed = 0 \<rparr>", unfolded three d two]
  note b = retry_budget_exhaustion [OF h', of example_config example_store Map.empty
        "\<lparr> succeeded = 0, completed = 0, failed = 0 \<rparr>"]
  from a ok pos have a1: "attempts (retryScrapeMedicine example_config example_env (taskOf ''unreachable'')) = 3"
    and a2: "delays (retryScrapeMedicine example_config example_env (taskOf ''unreachable'')) = [750, 750]"
    by blast+
  from a have a3: "processMedicineTask example_config example_env (taskOf ''unreachable'')
        (example_store, Map.empty, \<lparr> succeeded = 0, completed = 0, failed = 0 \<rparr>)
      = (example_store, Map.empty, \<lparr> succeeded = 0, completed = 1, failed = 1 \<rparr>)"
    by simp
  from b bad have one: "attempts (retryScrapeMedicine example_config example_env (taskOf ''malformed-link'')) = 1"
    unfolding d using pos by blast
  from b have b3: "processMedicineTask example_config example_env (taskOf ''malformed-link'')
        (example_store, Map.empty, \<lparr> succeeded = 0, completed = 0, failed = 0 \<rparr>)
      = (example_store, Map.empty, \<lparr> succeeded = 0, completed = 1, failed = 1 \<rparr>)"
    by simp
  show ?thesis using a1 a2 one a3 b3 by blast
qed

theorem retry_zero_attempts_counterexample:
  "retryAttempts (example_config\<lparr>retryAttempts := 0\<rparr>) = 0
   \<and> (\<forall>k. \<exists>err. scrapeMedicine example_env (taskOf ''unreachable'') k = Inl err)
   \<and> attempts (retryScrapeMedicine (example_config\<lparr>retryAttempts := 0\<rparr>) example_env
        (taskOf ''unreachable'')) = 1"
  by (simp add: retryScrapeMedicine_def pRetry_def example_config_def scrapeMedicine_def
      example_env_def taskOf_def)


section \<open>Counters\<close>

lemma persistMedicine_error:
  "(fst (persistMedicine env task m (outputStore, fs)) \<noteq> None)
     = (writeFails env (path_join (medicinesDir outputStore) (toMedicineFileName m @ ''.json''))
        \<or> writeFails env (metadataPath outputStore))"
  by (simp add: persistMedicine_def writeFile_def Let_def medicineArtifactPath_def)

lemma persistMedicine_dirs:
  "outputDir (fst (snd (persistMedicine env task m (outputStore, fs)))) = outputDir outputStore
   \<and> medicinesDir (fst (snd (persistMedicine env task m (outputStore, fs)))) = medicinesDir outputStore
   \<and> metadataPath (fst (snd (persistMedicine env task m (outputStore, fs)))) = metadataPath outputStore"
  by (simp add: persistMedicine_def writeFile_def Let_def)

lemma processMedicineTask_dirs:
  "outputDir (fst (processMedicineTask appConfig env task st)) = outputDir (fst st)
   \<and> medicinesDir (fst (processMedicineTask appConfig env task st)) = medicinesDir (fst st)
   \<and> metadataPath (fst (processMedicineTask appConfig env task st)) = metadataPath (fst st)"
proof (cases "outcome (retryScrapeMedicine appConfig env task)")
  case (Inl err)
  then show ?thesis by (simp add: processMedicineTask_def Let_def)
next
  case (Inr m)
  then show ?thesis
    using persistMedicine_dirs [of env task m "fst st" "fst (snd st)"]
    by (simp add: processMedicineTask_def Let_def split: option.splits)
qed

lemma processMedicineTask_counters:
  "completed (snd (snd (processMedicineTask appConfig env task (outputStore, fs, state))))
     = completed state + 1
   \<and> (case outcome (retryScrapeMedicine appConfig env task) of
        Inl err \<Rightarrow>
          succeeded (snd (snd (processMedicineTask appConfig env task (outputStore, fs, state))))
            = succeeded state
          \<and> failed (snd (snd (processMedicineTask appConfig env task (outputStore, fs, state))))
            = failed state + 1
      | Inr medicine \<Rightarrow>
          succeeded (snd (snd (processMedicineTask appConfig env task (outputStore, fs, state))))
            = succeeded state + 1
          \<and> failed (snd (snd (processMedicineTask appConfig env task (outputStore, fs, state))))
            = failed state
              + (if fst (persistMedicine env task medicine (outputStore, fs)) = None then 0 else 1))"
  by (simp add: processMedicineTask_def Let_def split: sum.splits option.splits)


lemma lostWrite_persist:
  "outcome (retryScrapeMedicine appConfig env task) = Inr m \<Longrightarrow>
   lostWrite appConfig env outputStore task
     = (fst (persistMedicine env task m (outputStore, fs)) \<noteq> None)"
  using persistMedicine_error [of env task m outputStore fs] by (simp add: lostWrite_def)

lemma lostWrite_dirs:
  "medicinesDir s1 = medicinesDir s2 \<Longrightarrow> metadataPath s1 = metadataPath s2
   \<Longrightarrow> lostWrite appConfig env s1 task = lostWrite appConfig env s2 task"
  by (simp add: lostWrite_def split: sum.splits)

lemma processMedicineTask_step:
  "completed (snd (snd (processMedicineTask appConfig env task st))) = completed (snd (snd st)) + 1
   \<and> succeeded (snd (snd (processMedicineTask appConfig env task st)))
       = succeeded (snd (snd st)) + (if extracted appConfig env task then 1 else 0)
   \<and> failed (snd (snd (processMedicineTask appConfig env task st)))
       = failed (snd (snd st)) + (if extracted appConfig env task then 0 else 1)
           + (if lostWrite appConfig env (fst st) task then 1 else 0)"
proof (cases "outcome (retryScrapeMedicine appConfig env task)")
  case (Inl err)
  then show ?thesis
    by (simp add: processMedicineTask_def Let_def extracted_def lostWrite_def)
next
  case (Inr m)
  obtain outputStore fs state where st: "st = (outputStore, fs, state)" by (cases st) auto
  show ?thesis
    using Inr processMedicineTask_counters [of appConfig env task outputStore fs state]
      lostWrite_persist [OF Inr, of outputStore fs]
    by (simp add: st extracted_def)
qed

lemma process_all_counters:
  "medicinesDir (fst (foldl (\<lambda>acc task. processMedicineTask appConfig env task acc) st tasks))
     = medicinesDir (fst st)
   \<and> metadataPath (fst (foldl (\<lambda>acc task. processMedicineTask appConfig env task acc) st tasks))
     = metadataPath (fst st)
   \<and> completed (snd (snd (foldl (\<lambda>acc task. processMedicineTask appConfig env task acc) st tasks)))
     = completed (snd (snd st)) + length tasks
   \<and> succeeded (snd (snd (foldl (\<lambda>acc task. processMedicineTask appConfig env task acc) st tasks)))
     = succeeded (snd (snd st)) + length (filter (extracted appConfig env) tasks)
   \<and> failed (snd (snd (foldl (\<lambda>acc task. processMedicineTask appConfig env task acc) st tasks)))
     = failed (snd (snd st)) + length (filter (\<lambda>t. \<not> extracted appConfig env t) tasks)
         + length (filter (lostWrite appConfig env (fst st)) tasks)"
proof (induction tasks rule: rev_induct)
  case Nil
  show ?case by simp
next
  case (snoc t tasks)
  let ?mid = "foldl (\<lambda>acc task. processMedicineTask appConfig env task acc) st tasks"
  have l: "lostWrite appConfig env (fst ?mid) t = lostWrite appConfig env (fst st) t"
    using snoc by (intro lostWrite_dirs) simp_all
  show ?case
    using snoc processMedicineTask_step [of appConfig env t ?mid]
      processMedicineTask_dirs [of appConfig env t ?mid] l
    by simp
qed

lemma length_filter_mset:
  "mset xs = mset ys \<Longrightarrow> length (filter P xs) = length (filter P ys)"
  by (metis mset_filter size_mset)

lemma runTaskQueue_counters:
  assumes "mset (completionOrder env tasksToRun) = mset tasksToRun"
  shows "completed (snd (snd (runTaskQueue appConfig env tasksToRun st)))
     = completed (snd (snd st)) + length tasksToRun
   \<and> succeeded (snd (snd (runTaskQueue appConfig env tasksToRun st)))
     = succeeded (snd (snd st)) + length (filter (extracted appConfig env) tasksToRun)
   \<and> failed (snd (snd (runTaskQueue appConfig env tasksToRun st)))
     = failed (snd (snd st)) + length (filter (\<lambda>t. \<not> extracted appConfig env t) tasksToRun)
         + length (filter (lostWrite appConfig env (fst st)) tasksToRun)"
proof -
  have "length (completionOrder env tasksToRun) = length tasksToRun"
    using assms by (metis size_mset)
  then show ?thesis
    unfolding runTaskQueue_def
    using process_all_counters [of appConfig env st "completionOrder env tasksToRun"]
      length_filter_mset [OF assms]
    by simp
qed


lemma run_counters:
  assumes "\<forall>tasks. mset (completionOrder env tasks) = mset tasks"
  shows "(let ro = resolveRunOptions options appConfig;
             store0 = prepareOutputStore env fs (cfg_outputDir appConfig);
             tasksToRun = fst (applyCachePolicy fs
                 (selectTasks allMedicines (targetSlug ro) (targetLimit ro)) store0 (hardRefresh ro));
             summary = fst (run appConfig env options allMedicines fs)
         in total summary = length tasksToRun
            \<and> sum_succeeded summary = length (filter (extracted appConfig env) tasksToRun)
            \<and> sum_failed summary
                = length (filter (\<lambda>t. \<not> extracted appConfig env t) tasksToRun)
                  + length (filter (lostWrite appConfig env store0) tasksToRun)
            \<and> sum_succeeded summary + sum_failed summary
                = total summary + length (filter (lostWrite appConfig env store0) tasksToRun)
            \<and> ((\<exists>t\<in>set tasksToRun. lostWrite appConfig env store0 t)
                 \<longrightarrow> total summary < sum_succeeded summary + sum_failed summary))"
proof -
  define ro where "ro = resolveRunOptions options appConfig"
  define store0 where "store0 = prepareOutputStore env fs (cfg_outputDir appConfig)"
  define tasksToRun where "tasksToRun = fst (applyCachePolicy fs
      (selectTasks allMedicines (targetSlug ro) (targetLimit ro)) store0 (hardRefresh ro))"
  define state0 where "state0 = \<lparr> succeeded = 0, completed = 0, failed = 0 \<rparr>"
  define final where "final = runTaskQueue appConfig env tasksToRun (store0, fs, state0)"
  from assms have perm: "mset (completionOrder env tasksToRun) = mset tasksToRun" by blast
  note c = runTaskQueue_counters [OF perm, of appConfig "(store0, fs, state0)"]
  have s: "succeeded (snd (snd final)) = length (filter (extracted appConfig env) tasksToRun)"
    using c by (simp add: final_def state0_def)
  have f: "failed (snd (snd final))
      = length (filter (\<lambda>t. \<not> extracted appConfig env t) tasksToRun)
        + length (filter (lostWrite appConfig env store0) tasksToRun)"
    using c by (simp add: final_def state0_def)
  have split: "length (filter (extracted appConfig env) tasksToRun)
      + length (filter (\<lambda>t. \<not> extracted appConfig env t) tasksToRun) = length tasksToRun"
    by (rule sum_length_filter_compl)
  have summary: "fst (run appConfig env options allMedicines fs)
      = \<lparr> total = length tasksToRun, sum_succeeded = succeeded (snd (snd final)),
          sum_failed = failed (snd (snd final)),
          skipped = snd (applyCachePolicy fs
            (selectTasks allMedicines (targetSlug ro) (targetLimit ro)) store0 (hardRefresh ro)),
          sum_metadataPath = metadataPath store0 \<rparr>"
    by (simp add: run_def Let_def ro_def store0_def tasksToRun_def state0_def final_def)
  have lost: "0 < length (filter (lostWrite appConfig env store0) tasksToRun)"
    if "\<exists>t\<in>set tasksToRun. lostWrite appConfig env store0 t"
    using that by (simp add: filter_empty_conv)
  have eq: "succeeded (snd (snd final)) + failed (snd (snd final))
      = length tasksToRun + length (filter (lostWrite appConfig env store0) tasksToRun)"
    using s f split by simp
  have gt: "length tasksToRun < succeeded (snd (snd final)) + failed (snd (snd final))"
    if "\<exists>t\<in>set tasksToRun. lostWrite appConfig env store0 t"
    using eq lost [OF that] by linarith
  show ?thesis
    unfolding Let_def ro_def [symmetric] store0_def [symmetric] tasksToRun_def [symmetric] summary
    using s f eq gt by simp
qed

text \<open>
  C10. A task that was processed adds one to \<open>completed\<close>. When its extraction, retries
  included, ends in an error it adds one to \<open>failed\<close> and nothing to \<open>succeeded\<close>. When
  the extraction returns a record it adds one to \<open>succeeded\<close> before the record is
  persisted, and one to \<open>failed\<close> as well when persisting then fails. For a run in which
  every queued task is processed, \<open>succeeded\<close> counts the tasks whose extraction returned
  a record and \<open>failed\<close> the others plus those whose record could not be written, so
  \<open>succeeded + failed\<close> is \<open>total\<close> plus the number of records that could not be
  written, and exceeds \<open>total\<close> as soon as there is one.
\<close>

theorem counter_accounting:
  "completed (snd (snd (processMedicineTask appConfig env task (outputStore, fs, state))))
     = completed state + 1
   \<and> (case outcome (retryScrapeMedicine appConfig env task) of
        Inl err \<Rightarrow>
          succeeded (snd (snd (processMedicineTask appConfig env task (outputStore, fs, state))))
            = succeeded state
          \<and> failed (snd (snd (processMedicineTask appConfig env task (outputStore, fs, state))))
            = failed state + 1
      | Inr medicine \<Rightarrow>
          succeeded (snd (snd (processMedicineTask appConfig env task (outputStore, fs, state))))
            = succeeded state + 1
          \<and> failed (snd (snd (processMedicineTask appConfig env task (outputStore, fs, state))))
            = failed state
              + (if fst (persistMedicine env task medicine (outputStore, fs)) = None then 0 else 1))
   \<and> ((\<forall>tasks. mset (completionOrder env tasks) = mset tasks) \<longrightarrow>
        (let ro = resolveRunOptions options appConfig;
             store0 = prepareOutputStore env fs (cfg_outputDir appConfig);
             tasksToRun = fst (applyCachePolicy fs
                 (selectTasks allMedicines (targetSlug ro) (targetLimit ro)) store0 (hardRefresh ro));
             summary = fst (run appConfig env options allMedicines fs)
         in total summary = length tasksToRun
            \<and> sum_succeeded summary = length (filter (extracted appConfig env) tasksToRun)
            \<and> sum_failed summary
                = length (filter (\<lambda>t. \<not> extracted appConfig env t) tasksToRun)
                  + length (filter (lostWrite appConfig env store0) tasksToRun)
            \<and> sum_succeeded summary + sum_failed summary
                = total summary + length (filter (lostWrite appConfig env store0) tasksToRun)
            \<and> ((\<exists>t\<in>set tasksToRun. lostWrite appConfig env store0 t)
                 \<longrightarrow> total summary < sum_succeeded summary + sum_failed summary)))"
  using processMedicineTask_counters [of appConfig env task outputStore fs state]
    run_counters [of env options appConfig fs allMedicines]
  by blast


theorem counter_accounting_witness:
  "fst (run example_config (example_env\<lparr>writeFails := (\<lambda>p. p = ''/app/data/metadata.json'')\<rparr>)
          example_options [taskOf ''aspirin''] Map.empty)
     = \<lparr> total = 1, sum_succeeded = 1, sum_failed = 1, skipped = 0,
         sum_metadataPath = ''/app/data/metadata.json'' \<rparr>
   \<and> sum_succeeded (fst (run example_config
          (example_env\<lparr>writeFails := (\<lambda>p. p = ''/app/data/metadata.json'')\<rparr>)
          example_options [taskOf ''aspirin''] Map.empty))
     + sum_failed (fst (run example_config
          (example_env\<lparr>writeFails := (\<lambda>p. p = ''/app/data/metadata.json'')\<rparr>)
          example_options [taskOf ''aspirin''] Map.empty))
     = total (fst (run example_config
          (example_env\<lparr>writeFails := (\<lambda>p. p = ''/app/data/metadata.json'')\<rparr>)
          example_options [taskOf ''aspirin''] Map.empty))
       + length (filter
           (lostWrite example_config
              (example_env\<lparr>writeFails := (\<lambda>p. p = ''/app/data/metadata.json'')\<rparr>)
              (prepareOutputStore
                 (example_env\<lparr>writeFails := (\<lambda>p. p = ''/app/data/metadata.json'')\<rparr>)
                 Map.empty ''data''))
           [taskOf ''aspirin''])
   \<and> length (filter
           (lostWrite example_config
              (example_env\<lparr>writeFails := (\<lambda>p. p = ''/app/data/metadata.json'')\<rparr>)
              (prepareOutputStore
                 (example_env\<lparr>writeFails := (\<lambda>p. p = ''/app/data/metadata.json'')\<rparr>)
                 Map.empty ''data''))
           [taskOf ''aspirin'']) = 1"
proof -
  let ?env = "example_env\<lparr>writeFails := (\<lambda>p. p = ''/app/data/metadata.json'')\<rparr>"
  have perm: "\<forall>tasks. mset (completionOrder ?env tasks) = mset tasks"
    by (simp add: example_env_def)
  have todo: "fst (applyCachePolicy Map.empty
       (selectTasks [taskOf ''aspirin'']
          (targetSlug (resolveRunOptions example_options example_config))
          (targetLimit (resolveRunOptions example_options example_config)))
       (prepareOutputStore ?env Map.empty ''data'')
       (hardRefresh (resolveRunOptions example_options example_config)))
     = [taskOf ''aspirin'']"
    by (simp add: applyCachePolicy_def selectTasks_def resolveRunOptions_def example_options_def
        example_config_def prepareOutputStore_def loadMetadata_def getCachedSlugs_def Let_def)
  have dir: "cfg_outputDir example_config = ''data''"
    by (simp add: example_config_def)
  have summary: "fst (run example_config ?env example_options [taskOf ''aspirin''] Map.empty)
     = \<lparr> total = 1, sum_succeeded = 1, sum_failed = 1, skipped = 0,
         sum_metadataPath = ''/app/data/metadata.json'' \<rparr>"
    by code_simp
  have lost: "length (filter
           (lostWrite example_config ?env (prepareOutputStore ?env Map.empty ''data''))
           [taskOf ''aspirin'']) = 1"
    by code_simp
  from counter_accounting [where appConfig = example_config and env = ?env
      and options = example_options and fs = Map.empty and allMedicines = "[taskOf ''aspirin'']"]
    perm
  have "sum_succeeded (fst (run example_config ?env example_options [taskOf ''aspirin''] Map.empty))
     + sum_failed (fst (run example_config ?env example_options [taskOf ''aspirin''] Map.empty))
     = total (fst (run example_config ?env example_options [taskOf ''aspirin''] Map.empty))
       + length (filter
           (lostWrite example_config ?env (prepareOutputStore ?env Map.empty ''data''))
           [taskOf ''aspirin''])"
    unfolding Let_def todo dir by blast
  with summary lost show ?thesis by blast
qed


section \<open>Sections of a page\<close>

lemma walkSiblings_collects:
  "walkSiblings rest sec =
     sec\<lparr>
       paragraphs := paragraphs sec @
         filter (\<lambda>text. text \<noteq> [])
           (map (\<lambda>n. normaliseText (textContent n))
              (filter (matches [''p''])
                 (takeWhile (\<lambda>n. \<not> matches headingSelector n) rest))),
       bullets := bullets sec @
         concat (map (\<lambda>n. filter (\<lambda>item. item \<noteq> [])
                        (map (\<lambda>item. normaliseText (textContent (fst item)))
                           (querySelectorAll [''li''] n)))
                   (filter (matches [''ul'', ''ol''])
                      (takeWhile (\<lambda>n. \<not> matches headingSelector n) rest))) \<rparr>"
proof (induction rest sec rule: walkSiblings.induct)
  case (1 sec)
  show ?case by simp
next
  case (2 s rest sec)
  then show ?case by (simp add: matches_def)
next
  case (3 t cs rest sec)
  show ?case
  proof (cases "matches headingSelector (Element t cs)")
    case True
    then show ?thesis by simp
  next
    case False
    have excl: "\<not> (matches [''p''] (Element t cs) \<and> matches [''ul'', ''ol''] (Element t cs))"
      by (auto simp: matches_def)
    show ?thesis
      using False excl
      by (subst walkSiblings.simps) (simp add: "3.IH" Let_def)
  qed
qed


text \<open>
  C9. When the document has no \<open>main\<close> element there are no sections. Otherwise there
  is one section for each \<open>h2\<close> or \<open>h3\<close> below \<open>main\<close>, in document order, except
  those whose heading text is empty. The heading is the text of the element, white space
  collapsed and trimmed. The nodes of the section are the siblings after the heading up
  to the next \<open>h2\<close> or \<open>h3\<close>; its paragraphs are the texts, normalised the same way
  and not empty, of the \<open>p\<close> elements among them, and its bullets the non-empty
  normalised texts of the \<open>li\<close> elements below the \<open>ul\<close> and \<open>ol\<close> elements among
  them. The document with an \<open>h2\<close> A followed by a paragraph x and an \<open>h2\<close> B followed
  by a list of y and z gives the two sections A and B with that content.
\<close>

theorem extractSections_segmentation:
  "extractSections doc =
     (case querySelector [''main''] doc of
        None \<Rightarrow> []
      | Some main \<Rightarrow>
          filter (\<lambda>s. heading s \<noteq> [])
            (map (\<lambda>h.
               \<lparr> heading = normaliseText (textContent (fst h)),
                 paragraphs =
                   filter (\<lambda>text. text \<noteq> [])
                     (map (\<lambda>n. normaliseText (textContent n))
                        (filter (matches [''p''])
                           (takeWhile (\<lambda>n. \<not> matches headingSelector n) (snd h)))),
                 bullets =
                   concat (map (\<lambda>n. filter (\<lambda>item. item \<noteq> [])
                                  (map (\<lambda>item. normaliseText (textContent (fst item)))
                                     (querySelectorAll [''li''] n)))
                             (filter (matches [''ul'', ''ol''])
                                (takeWhile (\<lambda>n. \<not> matches headingSelector n) (snd h)))) \<rparr>)
               (querySelectorAll headingSelector main)))
   \<and> extractSections
       [Element ''html'' [Element ''body'' [Element ''main''
          [Element ''h2'' [Text ''A''], Element ''p'' [Text ''x''],
           Element ''h2'' [Text ''B''],
           Element ''ul'' [Element ''li'' [Text ''y''], Element ''li'' [Text ''z'']]]]]]
     = [\<lparr> heading = ''A'', paragraphs = [''x''], bullets = [] \<rparr>,
        \<lparr> heading = ''B'', paragraphs = [], bullets = [''y'', ''z''] \<rparr>]"
proof -
  have ex: "extractSections
       [Element ''html'' [Element ''body'' [Element ''main''
          [Element ''h2'' [Text ''A''], Element ''p'' [Text ''x''],
           Element ''h2'' [Text ''B''],
           Element ''ul'' [Element ''li'' [Text ''y''], Element ''li'' [Text ''z'']]]]]]
     = [\<lparr> heading = ''A'', paragraphs = [''x''], bullets = [] \<rparr>,
        \<lparr> heading = ''B'', paragraphs = [], bullets = [''y'', ''z''] \<rparr>]"
    by code_simp
  show ?thesis
    unfolding ex
    by (simp add: extractSections_def walkSiblings_collects split: option.splits)
qed

theorem extractSections_segmentation_witness:
  "(case querySelector [''main'']
          [Element ''html'' [Element ''body'' [Element ''header'' [Element ''h2'' [Text ''Menu'']],
             Element ''main''
               [Element ''h1'' [Text ''Aspirin''], Element ''p'' [Text ''Intro''],
                Element ''h2'' [Text ''  Key   facts ''],
                Text ''stray'', Element ''p'' [Text ''  ''],
                Element ''ol'' [Element ''li'' [Text ''one''], Element ''li'' [Text '' '']],
                Element ''p'' [Text ''Take '', Element ''b'' [Text ''with''], Text '' food''],
                Element ''h3'' [], Element ''p'' [Text ''dropped''],
                Element ''div'' [Element ''h3'' [Text ''Nested''], Element ''p'' [Text ''inside'']]]]]] of
        None \<Rightarrow> []
      | Some main \<Rightarrow>
          filter (\<lambda>s. heading s \<noteq> [])
            (map (\<lambda>h.
               \<lparr> heading = normaliseText (textContent (fst h)),
                 paragraphs =
                   filter (\<lambda>text. text \<noteq> [])
                     (map (\<lambda>n. normaliseText (textContent n))
                        (filter (matches [''p''])
                           (takeWhile (\<lambda>n. \<not> matches headingSelector n) (snd h)))),
                 bullets =
                   concat (map (\<lambda>n. filter (\<lambda>item. item \<noteq> [])
                                  (map (\<lambda>item. normaliseText (textContent (fst item)))
                                     (querySelectorAll [''li''] n)))
                             (filter (matches [''ul'', ''ol''])
                                (takeWhile (\<lambda>n. \<not> matches headingSelector n) (snd h)))) \<rparr>)
               (querySelectorAll headingSelector main)))
   = [\<lparr> heading = ''Key facts'', paragraphs = [''Take with food''], bullets = [''one''] \<rparr>,
      \<lparr> heading = ''Nested'', paragraphs = [''inside''], bullets = [] \<rparr>]"
proof -
  let ?doc = "[Element ''html'' [Element ''body'' [Element ''header'' [Element ''h2'' [Text ''Menu'']],
             Element ''main''
               [Element ''h1'' [Text ''Aspirin''], Element ''p'' [Text ''Intro''],
                Element ''h2'' [Text ''  Key   facts ''],
                Text ''stray'', Element ''p'' [Text ''  ''],
                Element ''ol'' [Element ''li'' [Text ''one''], Element ''li'' [Text '' '']],
                Element ''p'' [Text ''Take '', Element ''b'' [Text ''with''], Text '' food''],
                Element ''h3'' [], Element ''p'' [Text ''dropped''],
                Element ''div'' [Element ''h3'' [Text ''Nested''], Element ''p'' [Text ''inside'']]]]]]"
  have v: "extractSections ?doc
     = [\<lparr> heading = ''Key facts'', paragraphs = [''Take with food''], bullets = [''one''] \<rparr>,
        \<lparr> heading = ''Nested'', paragraphs = [''inside''], bullets = [] \<rparr>]"
    by code_simp
  from extractSections_segmentation [of ?doc] have "extractSections ?doc = (case querySelector [''main''] ?doc of
        None \<Rightarrow> []
      | Some main \<Rightarrow>
          filter (\<lambda>s. heading s \<noteq> [])
            (map (\<lambda>h.
               \<lparr> heading = normaliseText (textContent (fst h)),
                 paragraphs =
                   filter (\<lambda>text. text \<noteq> [])
                     (map (\<lambda>n. normaliseText (textContent n))
                        (filter (matches [''p''])
                           (takeWhile (\<lambda>n. \<not> matches headingSelector n) (snd h)))),
                 bullets =
                   concat (map (\<lambda>n. filter (\<lambda>item. item \<noteq> [])
                                  (map (\<lambda>item. normaliseText (textContent (fst item)))
                                     (querySelectorAll [''li''] n)))
                             (filter (matches [''ul'', ''ol''])
                                (takeWhile (\<lambda>n. \<not> matches headingSelector n) (snd h)))) \<rparr>)
               (querySelectorAll headingSelector main)))"
    by (rule conjunct1)
  from this [symmetric] v show ?thesis by (rule trans)
qed


section \<open>Bounded concurrency\<close>















section \<open>Re-running\<close>

lemma upsertMetadata_keeps:
  assumes "e \<in> set items" and "entry_slug e \<noteq> s"
  shows "e \<in> set (upsertMetadata items s n p)"
proof (cases "findIndex (\<lambda>item. entry_slug item = s) items")
  case None
  with assms show ?thesis by (simp add: upsertMetadata_def)
next
  case (Some i)
  from findIndex_Some [OF Some] have i: "entry_slug (items ! i) = s" by simp
  from assms(1) obtain j where j: "j < length items" "items ! j = e"
    by (auto simp: in_set_conv_nth)
  with i assms(2) have "j \<noteq> i" by auto
  with j have "upsertMetadata items s n p ! j = e" "j < length (upsertMetadata items s n p)"
    by (simp_all add: upsertMetadata_existing [OF Some])
  then show ?thesis by (metis nth_mem)
qed

lemma upsertMetadata_has:
  "\<lparr> entry_slug = s, medicineName = n, medicineFilePath = p \<rparr> \<in> set (upsertMetadata items s n p)"
proof (cases "findIndex (\<lambda>item. entry_slug item = s) items")
  case None
  then show ?thesis by (simp add: upsertMetadata_def)
next
  case (Some i)
  from findIndex_Some [OF Some] have "i < length items" by simp
  then show ?thesis
    by (simp add: upsertMetadata_existing [OF Some] set_update_memI)
qed

lemma upsertMetadata_entries:
  "e \<in> set (upsertMetadata items s n p)
   \<Longrightarrow> e \<in> set items \<or> e = \<lparr> entry_slug = s, medicineName = n, medicineFilePath = p \<rparr>"
proof (cases "findIndex (\<lambda>item. entry_slug item = s) items")
  case None
  assume "e \<in> set (upsertMetadata items s n p)"
  with None show ?thesis by (auto simp: upsertMetadata_def)
next
  case (Some i)
  assume "e \<in> set (upsertMetadata items s n p)"
  then have "e \<in> insert \<lparr> entry_slug = s, medicineName = n, medicineFilePath = p \<rparr> (set items)"
    using set_update_subset_insert [of items i]
    by (auto simp: upsertMetadata_existing [OF Some])
  then show ?thesis by auto
qed

lemma resolve_relative_artifact:
  assumes "medicinesDir outputStore = path_join (outputDir outputStore) ''medicines''"
  shows "path_resolve (outputDir outputStore)
           (path_relative (outputDir outputStore) (medicineArtifactPath outputStore m))
         = medicineArtifactPath outputStore m"
  using assms
  by (simp add: medicineArtifactPath_def path_join_def path_relative_def path_resolve_def)

lemma persistMedicine_ok:
  assumes ok: "fst (persistMedicine env task m (outputStore, fs)) = None"
    and dirs: "medicinesDir outputStore = path_join (outputDir outputStore) ''medicines''"
  defines "store1 \<equiv> fst (snd (persistMedicine env task m (outputStore, fs)))"
    and "fs1 \<equiv> snd (snd (persistMedicine env task m (outputStore, fs)))"
  shows "getCachedSlugs fs (outputDir outputStore) (metadata outputStore)
           \<subseteq> getCachedSlugs fs1 (outputDir outputStore) (metadata store1)"
    and "task_slug task \<in> getCachedSlugs fs1 (outputDir outputStore) (metadata store1)"
    and "fs1 (metadataPath outputStore) = Some (MetadataFile (metadata store1))"
    and "metadata store1 = upsertMetadata (metadata outputStore) (task_slug task) (name m)
           (path_relative (outputDir outputStore) (medicineArtifactPath outputStore m))"
proof -
  let ?ap = "medicineArtifactPath outputStore m"
  let ?rel = "path_relative (outputDir outputStore) ?ap"
  let ?md = "upsertMetadata (metadata outputStore) (task_slug task) (name m) ?rel"
  from ok have w: "\<not> writeFails env ?ap" "\<not> writeFails env (metadataPath outputStore)"
    using persistMedicine_error [of env task m outputStore fs]
    by (simp_all add: medicineArtifactPath_def)
  have s1: "store1 = outputStore\<lparr>metadata := ?md\<rparr>"
    using w by (simp add: store1_def persistMedicine_def writeFile_def Let_def)
  have f1: "fs1 = (fs(?ap \<mapsto> MedicineFile m))(metadataPath outputStore \<mapsto> MetadataFile ?md)"
    using w by (simp add: fs1_def persistMedicine_def writeFile_def Let_def)
  have grow: "access fs1 p" if "access fs p" for p
    using that by (simp add: f1 access_def)
  have new: "access fs1 ?ap" by (simp add: f1 access_def)
  show md: "metadata store1 = ?md" by (simp add: s1)
  show "fs1 (metadataPath outputStore) = Some (MetadataFile (metadata store1))"
    by (simp add: f1 s1)
  show "task_slug task \<in> getCachedSlugs fs1 (outputDir outputStore) (metadata store1)"
    unfolding getCachedSlugs_iff md
    using upsertMetadata_has [of "task_slug task" "name m" ?rel "metadata outputStore"]
      new resolve_relative_artifact [OF dirs, of m]
    by force
  show "getCachedSlugs fs (outputDir outputStore) (metadata outputStore)
           \<subseteq> getCachedSlugs fs1 (outputDir outputStore) (metadata store1)"
  proof
    fix s
    assume "s \<in> getCachedSlugs fs (outputDir outputStore) (metadata outputStore)"
    then obtain e where e: "e \<in> set (metadata outputStore)" "entry_slug e = s"
      "access fs (path_resolve (outputDir outputStore) (medicineFilePath e))"
      by (auto simp: getCachedSlugs_iff)
    show "s \<in> getCachedSlugs fs1 (outputDir outputStore) (metadata store1)"
    proof (cases "s = task_slug task")
      case True
      with \<open>task_slug task \<in> getCachedSlugs fs1 (outputDir outputStore) (metadata store1)\<close>
      show ?thesis by simp
    next
      case False
      with e have "e \<in> set ?md" by (intro upsertMetadata_keeps) simp_all
      with e grow show ?thesis unfolding getCachedSlugs_iff md by blast
    qed
  qed
qed


lemma loadMetadata_stable:
  "e \<in> set (loadMetadata fs mpath)
   \<Longrightarrow> entry_slug e \<noteq> [] \<or> path_basename (medicineFilePath e) ''.json'' = []"
  by (auto simp: loadMetadata_def split: option.splits fileContent.splits if_splits)

lemma loadMetadata_of_stable:
  assumes "fs mpath = Some (MetadataFile items)"
    and "\<forall>e\<in>set items. entry_slug e \<noteq> [] \<or> path_basename (medicineFilePath e) ''.json'' = []"
  shows "loadMetadata fs mpath = items"
proof -
  have "map (\<lambda>item. item\<lparr>entry_slug :=
                 (if entry_slug item \<noteq> [] then entry_slug item
                  else path_basename (medicineFilePath item) ''.json'')\<rparr>) items = map (\<lambda>item. item) items"
    using assms(2) by (intro map_cong) auto
  then show ?thesis using assms(1) by (simp add: loadMetadata_def)
qed

lemma processMedicineTask_ok:
  fixes fs :: filesystem and state :: ScrapeState
  assumes ex: "extracted appConfig env task"
    and nl: "\<not> lostWrite appConfig env outputStore task"
    and dirs: "medicinesDir outputStore = path_join (outputDir outputStore) ''medicines''"
  defines "r \<equiv> processMedicineTask appConfig env task (outputStore, fs, state)"
  shows "getCachedSlugs fs (outputDir outputStore) (metadata outputStore)
           \<subseteq> getCachedSlugs (fst (snd r)) (outputDir outputStore) (metadata (fst r))"
    and "task_slug task \<in> getCachedSlugs (fst (snd r)) (outputDir outputStore) (metadata (fst r))"
    and "fst (snd r) (metadataPath outputStore) = Some (MetadataFile (metadata (fst r)))"
    and "\<forall>e\<in>set (metadata (fst r)). e \<in> set (metadata outputStore) \<or> entry_slug e = task_slug task"
proof -
  from ex obtain m where m: "outcome (retryScrapeMedicine appConfig env task) = Inr m"
    by (auto simp: extracted_def split: sum.splits)
  from nl have ok: "fst (persistMedicine env task m (outputStore, fs)) = None"
    using lostWrite_persist [OF m, of outputStore fs] by simp
  have r1: "fst r = fst (snd (persistMedicine env task m (outputStore, fs)))"
    and r2: "fst (snd r) = snd (snd (persistMedicine env task m (outputStore, fs)))"
    using m ok by (simp_all add: r_def processMedicineTask_def Let_def)
  note p = persistMedicine_ok [OF ok dirs]
  show "getCachedSlugs fs (outputDir outputStore) (metadata outputStore)
           \<subseteq> getCachedSlugs (fst (snd r)) (outputDir outputStore) (metadata (fst r))"
    unfolding r1 r2 by (rule p(1))
  show "task_slug task \<in> getCachedSlugs (fst (snd r)) (outputDir outputStore) (metadata (fst r))"
    unfolding r1 r2 by (rule p(2))
  show "fst (snd r) (metadataPath outputStore) = Some (MetadataFile (metadata (fst r)))"
    unfolding r1 r2 by (rule p(3))
  show "\<forall>e\<in>set (metadata (fst r)). e \<in> set (metadata outputStore) \<or> entry_slug e = task_slug task"
    unfolding r1 p(4) using upsertMetadata_entries by fastforce
qed

lemma process_all_ok:
  fixes fs :: filesystem and state :: ScrapeState
  assumes all: "\<forall>t\<in>set tasks. extracted appConfig env t \<and> \<not> lostWrite appConfig env outputStore t
                  \<and> task_slug t \<noteq> []"
    and dirs: "medicinesDir outputStore = path_join (outputDir outputStore) ''medicines''"
    and stable: "\<forall>e\<in>set (metadata outputStore).
                   entry_slug e \<noteq> [] \<or> path_basename (medicineFilePath e) ''.json'' = []"
  defines "fin \<equiv> foldl (\<lambda>acc task. processMedicineTask appConfig env task acc)
                    (outputStore, fs, state) tasks"
  shows "outputDir (fst fin) = outputDir outputStore
    \<and> medicinesDir (fst fin) = medicinesDir outputStore
    \<and> metadataPath (fst fin) = metadataPath outputStore
    \<and> getCachedSlugs fs (outputDir outputStore) (metadata outputStore)
         \<subseteq> getCachedSlugs (fst (snd fin)) (outputDir outputStore) (metadata (fst fin))
    \<and> (\<forall>t\<in>set tasks.
          task_slug t \<in> getCachedSlugs (fst (snd fin)) (outputDir outputStore) (metadata (fst fin)))
    \<and> (\<forall>e\<in>set (metadata (fst fin)).
          entry_slug e \<noteq> [] \<or> path_basename (medicineFilePath e) ''.json'' = [])
    \<and> (tasks \<noteq> [] \<longrightarrow>
          fst (snd fin) (metadataPath outputStore) = Some (MetadataFile (metadata (fst fin))))"
  using all unfolding fin_def
proof (induction tasks rule: rev_induct)
  case Nil
  show ?case using stable by simp
next
  case (snoc t tasks)
  let ?mid = "foldl (\<lambda>acc task. processMedicineTask appConfig env task acc)
                (outputStore, fs, state) tasks"
  obtain s1 f1 st1 where mid: "?mid = (s1, f1, st1)" by (cases ?mid) auto
  from snoc.prems have prev: "\<forall>t\<in>set tasks. extracted appConfig env t
      \<and> \<not> lostWrite appConfig env outputStore t \<and> task_slug t \<noteq> []"
    by simp
  note ih = snoc.IH [OF prev, unfolded mid, simplified]
  from snoc.prems have t: "extracted appConfig env t" "\<not> lostWrite appConfig env outputStore t"
    "task_slug t \<noteq> []"
    by simp_all
  from ih have d1: "outputDir s1 = outputDir outputStore" "medicinesDir s1 = medicinesDir outputStore"
    "metadataPath s1 = metadataPath outputStore"
    by simp_all
  have nl: "\<not> lostWrite appConfig env s1 t"
    using t(2) lostWrite_dirs [of s1 outputStore appConfig env t] d1 by simp
  have dirs1: "medicinesDir s1 = path_join (outputDir s1) ''medicines''"
    using dirs d1 by simp
  let ?r = "processMedicineTask appConfig env t (s1, f1, st1)"
  note step = processMedicineTask_ok [OF t(1) nl dirs1, of f1 st1]
  note sd = processMedicineTask_dirs [of appConfig env t "(s1, f1, st1)"]
  have fin: "foldl (\<lambda>acc task. processMedicineTask appConfig env task acc)
                (outputStore, fs, state) (tasks @ [t]) = ?r"
    by (simp add: mid)
  have c1: "getCachedSlugs fs (outputDir outputStore) (metadata outputStore)
         \<subseteq> getCachedSlugs (fst (snd ?r)) (outputDir outputStore) (metadata (fst ?r))"
    using ih step(1) d1 by auto
  have c2: "\<forall>u\<in>set (tasks @ [t]).
          task_slug u \<in> getCachedSlugs (fst (snd ?r)) (outputDir outputStore) (metadata (fst ?r))"
    using ih step(1) step(2) d1 by auto
  have c3: "\<forall>e\<in>set (metadata (fst ?r)).
          entry_slug e \<noteq> [] \<or> path_basename (medicineFilePath e) ''.json'' = []"
    using ih step(4) t(3) by metis
  have c4: "fst (snd ?r) (metadataPath outputStore) = Some (MetadataFile (metadata (fst ?r)))"
    using step(3) d1 by simp
  show ?case
    unfolding fin using sd d1 c1 c2 c3 c4 by simp
qed


lemma selectTasks_subset: "set (selectTasks tasks f lim) \<subseteq> set tasks"
  by (auto simp: selectTasks_def Let_def split: option.splits dest: in_set_takeD)

lemma applyCachePolicy_fst:
  "fst (applyCachePolicy fs tasks outputStore h)
     = (if h then tasks
        else filter (\<lambda>t. task_slug t \<notin> getCachedSlugs fs (outputDir outputStore) (metadata outputStore)) tasks)"
  by (simp add: applyCachePolicy_def filterCached_eq)

lemma applyCachePolicy_all_cached:
  assumes "\<forall>t\<in>set tasks. task_slug t \<in> getCachedSlugs fs (outputDir outputStore) (metadata outputStore)"
  shows "applyCachePolicy fs tasks outputStore False = ([], length tasks)"
proof -
  have "filter (\<lambda>t. task_slug t \<notin> getCachedSlugs fs (outputDir outputStore) (metadata outputStore)) tasks = []"
    using assms by (simp add: filter_empty_conv)
  moreover have "filter (\<lambda>t. task_slug t \<in> getCachedSlugs fs (outputDir outputStore) (metadata outputStore)) tasks = tasks"
    using assms by (simp add: filter_id_conv)
  ultimately show ?thesis by (simp add: applyCachePolicy_def filterCached_eq)
qed

lemma run_nothing_queued:
  assumes "completionOrder env [] = []"
    and "applyCachePolicy fs
           (selectTasks allMedicines (targetSlug (resolveRunOptions options appConfig))
              (targetLimit (resolveRunOptions options appConfig)))
           (prepareOutputStore env fs (cfg_outputDir appConfig))
           (hardRefresh (resolveRunOptions options appConfig)) = ([], n)"
  shows "run appConfig env options allMedicines fs
     = (\<lparr> total = 0, sum_succeeded = 0, sum_failed = 0, skipped = n,
          sum_metadataPath = metadataPath (prepareOutputStore env fs (cfg_outputDir appConfig)) \<rparr>,
        fs)"
  using assms by (simp add: run_def Let_def runTaskQueue_def)

lemma run_disk:
  "snd (run appConfig env options allMedicines fs)
     = fst (snd (runTaskQueue appConfig env
         (fst (applyCachePolicy fs
            (selectTasks allMedicines (targetSlug (resolveRunOptions options appConfig))
               (targetLimit (resolveRunOptions options appConfig)))
            (prepareOutputStore env fs (cfg_outputDir appConfig))
            (hardRefresh (resolveRunOptions options appConfig))))
         (prepareOutputStore env fs (cfg_outputDir appConfig), fs,
          \<lparr> succeeded = 0, completed = 0, failed = 0 \<rparr>)))"
  by (simp add: run_def Let_def)


lemma rerun_all_cached:
  assumes perm: "\<forall>tasks. mset (completionOrder env tasks) = mset tasks"
    and slugs: "\<forall>t\<in>set allMedicines. task_slug t \<noteq> []"
    and nofail: "sum_failed (fst (run appConfig env options allMedicines fs)) = 0"
  defines "ro \<equiv> resolveRunOptions options appConfig"
  defines "selected \<equiv> selectTasks allMedicines (targetSlug ro) (targetLimit ro)"
  defines "fs1 \<equiv> snd (run appConfig env options allMedicines fs)"
  shows "applyCachePolicy fs1 selected (prepareOutputStore env fs1 (cfg_outputDir appConfig)) False
           = ([], length selected)"
proof -
  define store0 where "store0 = prepareOutputStore env fs (cfg_outputDir appConfig)"
  define T1 where "T1 = fst (applyCachePolicy fs selected store0 (hardRefresh ro))"
  define L where "L = completionOrder env T1"
  define state0 where "state0 = \<lparr> succeeded = 0, completed = 0, failed = 0 \<rparr>"
  define fin where "fin = foldl (\<lambda>acc task. processMedicineTask appConfig env task acc)
      (store0, fs, state0) L"
  define dir where "dir = outputDir store0"
  have fs1: "fs1 = fst (snd fin)"
    unfolding fs1_def run_disk fin_def L_def T1_def store0_def selected_def ro_def state0_def
    by (simp add: runTaskQueue_def)
  from perm have pL: "mset L = mset T1" by (simp add: L_def)
  then have setL: "set L = set T1" by (rule mset_eq_setD)
  \<comment> \<open>no task of the first run failed\<close>
  have counts: "length (filter (\<lambda>t. \<not> extracted appConfig env t) T1)
      + length (filter (lostWrite appConfig env store0) T1) = 0"
    using run_counters [OF perm, of options appConfig fs allMedicines] nofail
    by (simp add: Let_def T1_def store0_def selected_def ro_def)
  then have good: "\<forall>t\<in>set T1. extracted appConfig env t \<and> \<not> lostWrite appConfig env store0 t"
    by (auto simp: filter_empty_conv)
  have sub: "set T1 \<subseteq> set selected"
    by (auto simp: T1_def applyCachePolicy_fst)
  have "set selected \<subseteq> set allMedicines"
    unfolding selected_def by (rule selectTasks_subset)
  with sub slugs have ne: "\<forall>t\<in>set T1. task_slug t \<noteq> []" by blast
  have all: "\<forall>t\<in>set L. extracted appConfig env t \<and> \<not> lostWrite appConfig env store0 t
      \<and> task_slug t \<noteq> []"
    using good ne setL by simp
  have dirs: "medicinesDir store0 = path_join (outputDir store0) ''medicines''"
    by (simp add: store0_def prepareOutputStore_def Let_def)
  have mp: "metadataPath store0 = path_join (outputDir store0) ''metadata.json''"
    by (simp add: store0_def prepareOutputStore_def Let_def)
  have md0: "metadata store0 = loadMetadata fs (metadataPath store0)"
    by (simp add: store0_def prepareOutputStore_def Let_def)
  have stable: "\<forall>e\<in>set (metadata store0).
      entry_slug e \<noteq> [] \<or> path_basename (medicineFilePath e) ''.json'' = []"
    unfolding md0 using loadMetadata_stable by blast
  note inv = process_all_ok [OF all dirs stable, of fs state0, folded fin_def]
  \<comment> \<open>the second run loads the index the first run left\<close>
  have loaded: "loadMetadata fs1 (metadataPath store0) = metadata (fst fin)"
  proof (cases "L = []")
    case True
    then have "fin = (store0, fs, state0)" by (simp add: fin_def)
    then show ?thesis by (simp add: fs1 md0)
  next
    case False
    with inv have "fs1 (metadataPath store0) = Some (MetadataFile (metadata (fst fin)))"
      by (simp add: fs1)
    then show ?thesis using inv by (intro loadMetadata_of_stable) simp_all
  qed
  have store1: "prepareOutputStore env fs1 (cfg_outputDir appConfig)
      = store0\<lparr>metadata := metadata (fst fin)\<rparr>"
    using loaded by (simp add: store0_def prepareOutputStore_def Let_def)
  \<comment> \<open>every selected task is cached for the second run\<close>
  have cached: "task_slug t \<in> getCachedSlugs fs1 (outputDir store0) (metadata (fst fin))"
    if "t \<in> set selected" for t
  proof (cases "t \<in> set T1")
    case True
    with inv setL show ?thesis by (simp add: fs1)
  next
    case False
    with that have "task_slug t \<in> getCachedSlugs fs (outputDir store0) (metadata store0)"
      by (auto simp: T1_def applyCachePolicy_fst split: if_splits)
    with inv show ?thesis by (auto simp: fs1)
  qed
  show ?thesis
    unfolding store1
    by (rule applyCachePolicy_all_cached [of selected fs1 "store0\<lparr>metadata := metadata (fst fin)\<rparr>",
          simplified]) (simp add: cached)
qed


lemma applyCachePolicy_total:
  "length (fst (applyCachePolicy fs tasks outputStore h)) + snd (applyCachePolicy fs tasks outputStore h)
     = length tasks"
proof (cases h)
  case True
  then show ?thesis by (simp add: applyCachePolicy_def)
next
  case False
  then show ?thesis
    using sum_length_filter_compl [of "\<lambda>t. task_slug t \<in> getCachedSlugs fs (outputDir outputStore) (metadata outputStore)" tasks]
    by (simp add: applyCachePolicy_def filterCached_eq)
qed

text \<open>
  C1, as the code has it. Take a first run in which no task failed, on a site whose
  tasks have non-empty slugs, and run again on the disk it left, with the same options
  but \<open>hardRefresh\<close> false. The second run queues nothing, so its summary has
  \<open>total = 0\<close>, \<open>succeeded = 0\<close> and \<open>failed = 0\<close>; it skips every selected task, so
  \<open>skipped\<close> is the number of tasks the first run queued or skipped; and it leaves the
  disk, the metadata index included, exactly as the first run left it.
\<close>

theorem idempotent_rerun:
  assumes "\<forall>tasks. mset (completionOrder env tasks) = mset tasks"
    and "\<forall>t\<in>set allMedicines. task_slug t \<noteq> []"
    and "sum_failed (fst (run appConfig env options allMedicines fs)) = 0"
  shows "(let first = run appConfig env options allMedicines fs;
              second = run appConfig env (options\<lparr>opt_hardRefresh := Some False\<rparr>) allMedicines
                         (snd first)
          in total (fst second) = 0
             \<and> skipped (fst second) = total (fst first) + skipped (fst first)
             \<and> sum_succeeded (fst second) = 0
             \<and> sum_failed (fst second) = 0
             \<and> snd second = snd first)"
proof -
  define ro where "ro = resolveRunOptions options appConfig"
  define selected where "selected = selectTasks allMedicines (targetSlug ro) (targetLimit ro)"
  define fs1 where "fs1 = snd (run appConfig env options allMedicines fs)"
  define options2 where "options2 = options\<lparr>opt_hardRefresh := Some False\<rparr>"
  have ro2: "targetSlug (resolveRunOptions options2 appConfig) = targetSlug ro"
    "targetLimit (resolveRunOptions options2 appConfig) = targetLimit ro"
    "hardRefresh (resolveRunOptions options2 appConfig) = False"
    by (simp_all add: options2_def ro_def resolveRunOptions_def)
  have cached: "applyCachePolicy fs1 selected
      (prepareOutputStore env fs1 (cfg_outputDir appConfig)) False = ([], length selected)"
    using rerun_all_cached [OF assms] by (simp add: fs1_def selected_def ro_def)
  from assms(1) have "mset (completionOrder env []) = mset ([] :: MedicineTask list)" by blast
  then have empty: "completionOrder env [] = []" by simp
  have second: "run appConfig env options2 allMedicines fs1
     = (\<lparr> total = 0, sum_succeeded = 0, sum_failed = 0, skipped = length selected,
          sum_metadataPath = metadataPath (prepareOutputStore env fs1 (cfg_outputDir appConfig)) \<rparr>,
        fs1)"
    by (rule run_nothing_queued [OF empty]) (simp add: ro2 cached [unfolded selected_def] selected_def)
  have first: "total (fst (run appConfig env options allMedicines fs))
      + skipped (fst (run appConfig env options allMedicines fs)) = length selected"
    using applyCachePolicy_total [of fs selected
        "prepareOutputStore env fs (cfg_outputDir appConfig)" "hardRefresh ro"]
    by (simp add: run_def Let_def selected_def ro_def)
  show ?thesis
    unfolding Let_def options2_def [symmetric] fs1_def [symmetric] second
    using first by simp
qed

theorem idempotent_rerun_witness:
  "(let first = run example_config example_env example_options
                  [taskOf ''aspirin'', taskOf ''codeine''] Map.empty;
        second = run example_config example_env (example_options\<lparr>opt_hardRefresh := Some False\<rparr>)
                   [taskOf ''aspirin'', taskOf ''codeine''] (snd first)
    in total (fst first) = 2 \<and> skipped (fst first) = 0 \<and> sum_failed (fst first) = 0
       \<and> total (fst second) = 0 \<and> skipped (fst second) = 2
       \<and> sum_succeeded (fst second) = 0 \<and> sum_failed (fst second) = 0
       \<and> snd second = snd first)"
proof -
  have perm: "\<forall>tasks. mset (completionOrder example_env tasks) = mset tasks"
    by (simp add: example_env_def)
  have slugs: "\<forall>t\<in>set [taskOf ''aspirin'', taskOf ''codeine'']. task_slug t \<noteq> []"
    by (simp add: taskOf_def)
  have first: "fst (run example_config example_env example_options
                  [taskOf ''aspirin'', taskOf ''codeine''] Map.empty)
     = \<lparr> total = 2, sum_succeeded = 2, sum_failed = 0, skipped = 0,
         sum_metadataPath = ''/app/data/metadata.json'' \<rparr>"
    by code_simp
  then have nofail: "sum_failed (fst (run example_config example_env example_options
                  [taskOf ''aspirin'', taskOf ''codeine''] Map.empty)) = 0"
    by simp
  from idempotent_rerun [OF perm slugs nofail] first
  show ?thesis by (simp add: Let_def)
qed

theorem rerun_total_counterexample:
  "sum_failed (fst (run example_config example_env (example_options\<lparr>opt_hardRefresh := Some False\<rparr>)
              [taskOf ''aspirin'', taskOf ''codeine''] Map.empty)) = 0
   \<and> access (snd (run example_config example_env (example_options\<lparr>opt_hardRefresh := Some False\<rparr>)
              [taskOf ''aspirin'', taskOf ''codeine''] Map.empty))
        ''/app/data/medicines/aspirin.json''
   \<and> access (snd (run example_config example_env (example_options\<lparr>opt_hardRefresh := Some False\<rparr>)
              [taskOf ''aspirin'', taskOf ''codeine''] Map.empty))
        ''/app/data/medicines/codeine.json''
   \<and> total (fst (run example_config example_env (example_options\<lparr>opt_hardRefresh := Some False\<rparr>)
      [taskOf ''aspirin'', taskOf ''codeine'']
      (snd (run example_config example_env (example_options\<lparr>opt_hardRefresh := Some False\<rparr>)
              [taskOf ''aspirin'', taskOf ''codeine''] Map.empty)))) = 0
   \<and> skipped (fst (run example_config example_env (example_options\<lparr>opt_hardRefresh := Some False\<rparr>)
      [taskOf ''aspirin'', taskOf ''codeine'']
      (snd (run example_config example_env (example_options\<lparr>opt_hardRefresh := Some False\<rparr>)
              [taskOf ''aspirin'', taskOf ''codeine''] Map.empty)))) = 2"
  by code_simp

end
